theory Spec2Isabelle
  imports Complex_Main "HOL-Library.Multiset"
begin

section \<open>The tessellator of jupyter-cadquery: a shallow embedding\<close>

text \<open>
  The development follows \<^verbatim>\<open>jupyter_cadquery/tessellator.py\<close>. Python floats are
  modelled by \<^typ>\<open>real\<close> (rounding to float32 or float64 is left out), Python
  integers by \<^typ>\<open>int\<close> (the conversions of \<^verbatim>\<open>np.asarray\<close> keep the values),
  exceptions by the left summand of a sum type, and what is printed by a list of lines
  returned next to the result. The CAD kernel (OCP) is not part of the repository: the
  data it hands to the program is modelled by records that hold exactly what the program
  reads from it, and its vector operations by their mathematical meaning.
\<close>

subsection \<open>Exceptions\<close>

datatype py_error =
    IndexError
  | KeyError string
  | AssertionError string
  | AttributeError string
  | TypeError string
  | ValueError string
  | StandardFailure string

subsection \<open>Kernel data read by the program\<close>

type_synonym coord = "real \<times> real \<times> real"

text \<open>
  A \<^verbatim>\<open>Poly_Triangulation\<close>: \<^verbatim>\<open>Node(i)\<close> and \<^verbatim>\<open>Triangle(i)\<close> are
  1-based, \<^verbatim>\<open>Triangle(i).Get()\<close> is a 3-tuple of node indices, and UV nodes are
  optional.
\<close>

record triangulation =
  nodes :: "coord list"
  tris :: "(int \<times> int \<times> int) list"
  uvnodes :: "(real \<times> real) list option"

definition NbNodes :: "triangulation \<Rightarrow> int" where
  "NbNodes poly = int (length (nodes poly))"

definition Node :: "triangulation \<Rightarrow> int \<Rightarrow> coord" where
  "Node poly i = nodes poly ! nat (i - 1)"

definition NbTriangles :: "triangulation \<Rightarrow> int" where
  "NbTriangles poly = int (length (tris poly))"

definition Triangle :: "triangulation \<Rightarrow> int \<Rightarrow> int \<times> int \<times> int" where
  "Triangle poly i = tris poly ! nat (i - 1)"

definition HasUVNodes :: "triangulation \<Rightarrow> bool" where
  "HasUVNodes poly = (uvnodes poly \<noteq> None)"

definition UVNode :: "triangulation \<Rightarrow> int \<Rightarrow> real \<times> real" where
  "UVNode poly i = (case uvnodes poly of Some uv \<Rightarrow> uv ! nat (i - 1) | None \<Rightarrow> (0, 0))"

datatype orientation = TopAbs_FORWARD | TopAbs_REVERSED | TopAbs_INTERNAL | TopAbs_EXTERNAL

text \<open>
  A face as the extractor sees it: its orientation, the result of
  \<^verbatim>\<open>BRep_Tool.Triangulation_s(face, loc)\<close> (\<open>None\<close> for a face that carries no
  mesh), the transformation of the location written to \<^verbatim>\<open>loc\<close>, and the surface
  normal that \<^verbatim>\<open>BRepGProp_Face(face).Normal(u, v, p, n)\<close> stores in \<^verbatim>\<open>n\<close>.
\<close>

record face =
  Orientation :: orientation
  Triangulation :: "triangulation option"
  Transformation :: "coord \<Rightarrow> coord"
  Normal :: "real \<Rightarrow> real \<Rightarrow> coord"

text \<open>
  A \<^verbatim>\<open>Poly_PolygonOnTriangulation\<close> has two interfaces, depending on the kernel
  version: \<^verbatim>\<open>NbNodes()\<close> and \<^verbatim>\<open>Node(j)\<close> for \<open>j\<close> from 1 (OCCT > 7.5), or
  an array \<^verbatim>\<open>Nodes()\<close> with bounds \<^verbatim>\<open>Lower()\<close>, \<^verbatim>\<open>Upper()\<close> and
  \<^verbatim>\<open>Value(j)\<close> (OCCT 7.5).
\<close>

datatype polygon =
    PolyNode "int list"
  | PolyArray int "int list"

text \<open>
  An edge with the faces \<^verbatim>\<open>face_map.FindFromKey(edge)\<close> and the result of
  \<^verbatim>\<open>BRep_Tool.PolygonOnTriangulation_s\<close> for the triangulation and location of the
  first of them.
\<close>

record edge =
  face_list :: "face list"
  PolygonOnTriangulation :: "polygon option"

text \<open>
  A shape: its structural hash, the solids a \<^verbatim>\<open>TopExp_Explorer\<close> finds, the faces
  \<^verbatim>\<open>get_faces\<close> yields and the edges of \<^verbatim>\<open>TopExp.MapShapes_s\<close>, in index order.
\<close>

record shape =
  HashCode :: "int \<Rightarrow> int"
  solids :: "nat list"
  faces :: "face list"
  edge_map :: "edge list"

text \<open>
  The kernel calls that change or build shapes. \<^verbatim>\<open>BRepMesh_IncrementalMesh\<close>
  attaches triangulations to the shape it is given, or raises.
\<close>

record kernel =
  Clean_s :: "shape \<Rightarrow> shape"
  BRepMesh_IncrementalMesh :: "shape \<Rightarrow> real \<Rightarrow> bool \<Rightarrow> real \<Rightarrow> bool \<Rightarrow> py_error + shape"
  makeCompound :: "shape list \<Rightarrow> shape"

subsection \<open>Python ranges, tuples and vectors\<close>

text \<open>\<^verbatim>\<open>range(a, b)\<close> is empty when \<open>b \<le> a\<close>.\<close>

definition py_range :: "int \<Rightarrow> int \<Rightarrow> int list" where
  "py_range a b = [a..b - 1]"

text \<open>\<^verbatim>\<open>coord[k]\<close> on a 3-tuple, for the indices 0, 1 and 2 the program uses.\<close>

fun item :: "'a \<times> 'a \<times> 'a \<Rightarrow> nat \<Rightarrow> 'a" where
  "item (a, b, c) k = (if k = 0 then a else if k = 1 then b else c)"

definition Coord :: "coord \<Rightarrow> real list" where
  "Coord p = (case p of (x, y, z) \<Rightarrow> [x, y, z])"

definition SquareMagnitude :: "coord \<Rightarrow> real" where
  "SquareMagnitude n = (case n of (x, y, z) \<Rightarrow> x * x + y * y + z * z)"

definition Normalize :: "coord \<Rightarrow> coord" where
  "Normalize n = (case n of (x, y, z) \<Rightarrow>
     (let d = sqrt (SquareMagnitude n) in (x / d, y / d, z / d)))"

text \<open>
  \<^verbatim>\<open>n_buf.Normalize()\<close> changes the vector in place; \<^verbatim>\<open>n_buf.Reverse()\<close> is
  used by the program as an expression and is taken to give the reversed vector.
\<close>

definition Reverse :: "coord \<Rightarrow> coord" where
  "Reverse n = (case n of (x, y, z) \<Rightarrow> (- x, - y, - z))"

subsection \<open>The Tessellator class\<close>

record tessellator =
  vertices :: "real list"
  triangles :: "int list"
  normals :: "real list"
  shape :: "shape option"
  edges :: "(coord \<times> coord) list"

definition init :: tessellator where
  "init = \<lparr>vertices = [], triangles = [], normals = [], shape = None, edges = []\<rparr>"

text \<open>\<^verbatim>\<open>number_solids\<close>: one step of the explorer for each solid.\<close>

fun number_solids_loop :: "nat list \<Rightarrow> int \<Rightarrow> int" where
  "number_solids_loop [] cnt = cnt"
| "number_solids_loop (s # e) cnt = number_solids_loop e (cnt + 1)"

definition number_solids :: "shape \<Rightarrow> int" where
  "number_solids sh = number_solids_loop (solids sh) 0"

text \<open>
  The body of the loop over faces in \<^verbatim>\<open>Tessellator.tessellate\<close>. The loop state is
  the object and the running \<^verbatim>\<open>offset\<close>.
\<close>

definition normal_coords :: "face \<Rightarrow> triangulation \<Rightarrow> bool \<Rightarrow> int \<Rightarrow> real list" where
  "normal_coords f poly internal i =
     (case UVNode poly i of (u, v) \<Rightarrow>
        (let n_buf = Normal f u v;
             n_buf = (if SquareMagnitude n_buf > 0 then Normalize n_buf else n_buf)
         in if internal then Coord (Reverse n_buf) else Coord n_buf))"

definition tessellate_face :: "face \<Rightarrow> tessellator \<times> int \<Rightarrow> tessellator \<times> int" where
  "tessellate_face f st =
     (case st of (self, offset) \<Rightarrow>
        (let (i1, i2) = (if Orientation f = TopAbs_REVERSED then (2, 1) else (1, 2));
             internal = (Orientation f = TopAbs_INTERNAL)
         in case Triangulation f of
              None \<Rightarrow> (self, offset)
            | Some poly \<Rightarrow>
               (let Trsf = Transformation f;
                    flat = concat (map (\<lambda>i. Coord (Trsf (Node poly i)))
                                       (py_range 1 (NbNodes poly + 1)));
                    self = self\<lparr>vertices := vertices self @ flat\<rparr>;
                    flat = concat (map (\<lambda>i. let coord = Triangle poly i
                                              in [item coord 0 + offset,
                                                  item coord i1 + offset,
                                                  item coord i2 + offset])
                                       (py_range 1 (NbTriangles poly + 1)));
                    self = self\<lparr>triangles := triangles self @ flat\<rparr>;
                    self = (if HasUVNodes poly
                            then (let flat = concat (map (normal_coords f poly internal)
                                                         (py_range 1 (NbNodes poly + 1)))
                                  in self\<lparr>normals := normals self @ flat\<rparr>)
                            else self)
                in (self, offset + NbNodes poly))))"

fun tessellate_loop :: "face list \<Rightarrow> tessellator \<times> int \<Rightarrow> tessellator \<times> int" where
  "tessellate_loop [] st = st"
| "tessellate_loop (f # fs) st = tessellate_loop fs (tessellate_face f st)"

text \<open>
  \<^verbatim>\<open>Tessellator.tessellate\<close> on the faces of \<^verbatim>\<open>self.shape\<close>. Without a shape
  \<^verbatim>\<open>get_faces(None)\<close> fails; \<^verbatim>\<open>compute\<close> sets the shape first.
\<close>

definition tessellate_faces :: "face list \<Rightarrow> tessellator \<Rightarrow> tessellator" where
  "tessellate_faces fs self =
     fst (tessellate_loop fs (self\<lparr>vertices := [], triangles := [], normals := []\<rparr>, - 1))"

definition tessellate_method :: "tessellator \<Rightarrow> py_error + tessellator" where
  "tessellate_method self =
     (case shape self of
        None \<Rightarrow> Inl (TypeError ''get_faces'')
      | Some sh \<Rightarrow> Inr (tessellate_faces (faces sh) self))"

text \<open>
  \<^verbatim>\<open>Tessellator.compute_edges\<close>. The inner loop runs over \<^verbatim>\<open>nrange\<close> with the
  accessor \<^verbatim>\<open>index\<close>; \<^verbatim>\<open>triangle.Node(k)\<close> fails when the first face has no
  triangulation, and the kernel's range check fails when \<open>k\<close> is no node of it.
\<close>

fun edge_loop ::
  "triangulation option \<Rightarrow> (coord \<Rightarrow> coord) \<Rightarrow> (int \<Rightarrow> int) \<Rightarrow> int list \<Rightarrow>
   coord option \<Rightarrow> tessellator \<Rightarrow> py_error + tessellator" where
  "edge_loop triangle transf index [] v1 self = Inr self"
| "edge_loop triangle transf index (j # js) v1 self =
     (case triangle of
        None \<Rightarrow> Inl (AttributeError ''Node'')
      | Some t \<Rightarrow>
          if 1 \<le> index j \<and> index j \<le> NbNodes t
          then (let v2 = transf (Node t (index j));
                    self = (case v1 of
                              None \<Rightarrow> self
                            | Some v \<Rightarrow> self\<lparr>edges := edges self @ [(v, v2)]\<rparr>)
                in edge_loop triangle transf index js (Some v2) self)
          else Inl (StandardFailure ''Standard_OutOfRange''))"

definition compute_edge :: "edge \<Rightarrow> tessellator \<Rightarrow> py_error + tessellator" where
  "compute_edge e self =
     (case face_list e of
        [] \<Rightarrow> Inr self
      | first # _ \<Rightarrow>
          (let triangle = Triangulation first
           in case PolygonOnTriangulation e of
                None \<Rightarrow> Inr self
              | Some poly \<Rightarrow>
                  (let (nrange, index) =
                         (case poly of
                            PolyNode ns \<Rightarrow>
                              (py_range 1 (int (length ns) + 1), \<lambda>j. ns ! nat (j - 1))
                          | PolyArray lower vs \<Rightarrow>
                              (py_range lower (lower + int (length vs) - 1 + 1),
                               \<lambda>j. vs ! nat (j - lower)));
                       transf = Transformation first
                   in edge_loop triangle transf index nrange None self)))"

fun compute_edges_loop :: "edge list \<Rightarrow> tessellator \<Rightarrow> py_error + tessellator" where
  "compute_edges_loop [] self = Inr self"
| "compute_edges_loop (e # es) self =
     (case compute_edge e self of
        Inl err \<Rightarrow> Inl err
      | Inr self' \<Rightarrow> compute_edges_loop es self')"

definition compute_edges :: "tessellator \<Rightarrow> py_error + tessellator" where
  "compute_edges self =
     (case shape self of
        None \<Rightarrow> Inl (TypeError ''MapShapes_s'')
      | Some sh \<Rightarrow> compute_edges_loop (edge_map sh) self)"

text \<open>
  Modelled from the spec: \<^verbatim>\<open>Timer\<close> (\<^verbatim>\<open>jupyter_cadquery.utils\<close>, not among the
  sources) is a side channel only: leaving its block prints one line about the activity
  when \<^verbatim>\<open>debug\<close> is set, and lets exceptions pass. The elapsed time is left out.
\<close>

definition Timer :: "bool \<Rightarrow> string \<Rightarrow> string list" where
  "Timer debug activity = (if debug then [activity] else [])"

text \<open>
  \<^verbatim>\<open>Tessellator.compute\<close> returns the object (or the exception) and the lines printed.
  The kernel meshes the shape in place, so \<^verbatim>\<open>self.shape\<close> is the meshed shape.
\<close>

definition compute ::
  "kernel \<Rightarrow> tessellator \<Rightarrow> shape \<Rightarrow> real \<Rightarrow> real \<Rightarrow> bool \<Rightarrow> bool \<Rightarrow> bool \<Rightarrow> bool \<Rightarrow>
   (py_error + tessellator) \<times> string list" where
  "compute k self sh quality angular_tolerance c_faces c_edges debug progress =
     (let out = (if progress then [''t''] else []);
          self = self\<lparr>shape := Some sh\<rparr>;
          cnt = number_solids sh;
          out = out @ Timer debug
                  (''mesh incrementally '' @ (if cnt > 1 then ''(parallel)'' else []))
      in case BRepMesh_IncrementalMesh k (Clean_s k sh) quality False angular_tolerance (cnt > 1) of
           Inl err \<Rightarrow> (Inl err, out)
         | Inr meshed \<Rightarrow>
            (let self = self\<lparr>shape := Some meshed\<rparr>;
                 (r, out) = (if c_faces
                             then (tessellate_method self,
                                   out @ Timer debug ''get nodes, triangles and normals'')
                             else (Inr self, out))
             in case r of
                  Inl err \<Rightarrow> (Inl err, out)
                | Inr self \<Rightarrow>
                    if c_edges
                    then (compute_edges self, out @ Timer debug ''get edges'')
                    else (Inr self, out)))"

subsection \<open>The module's functions\<close>

text \<open>The dictionary that \<^verbatim>\<open>tessellate\<close> returns, with its four arrays.\<close>

record mesh_result =
  mr_vertices :: "real list"
  mr_triangles :: "int list"
  mr_normals :: "real list"
  mr_edges :: "(coord \<times> coord) list"

definition get_vertices :: "tessellator \<Rightarrow> real list" where
  "get_vertices self = vertices self"

definition get_triangles :: "tessellator \<Rightarrow> int list" where
  "get_triangles self = triangles self"

definition get_normals :: "tessellator \<Rightarrow> real list" where
  "get_normals self = normals self"

definition get_edges :: "tessellator \<Rightarrow> (coord \<times> coord) list" where
  "get_edges self = edges self"

text \<open>The undecorated body of \<^verbatim>\<open>tessellate\<close>.\<close>

definition tessellate_body ::
  "kernel \<Rightarrow> shape list \<Rightarrow> real \<Rightarrow> real \<Rightarrow> bool \<Rightarrow> bool \<Rightarrow> bool \<Rightarrow> bool \<Rightarrow>
   (py_error + mesh_result) \<times> string list" where
  "tessellate_body k shapes quality angular_tolerance c_faces c_edges debug progress =
     (case shapes of
        [] \<Rightarrow> (Inl IndexError, [])
      | s # _ \<Rightarrow>
          (let compound = (if length shapes > 1 then makeCompound k shapes else s);
               tess = init
           in case compute k tess compound quality angular_tolerance c_faces c_edges debug progress of
                (Inl err, out) \<Rightarrow> (Inl err, out)
              | (Inr tess, out) \<Rightarrow>
                  (Inr \<lparr>mr_vertices = get_vertices tess, mr_triangles = get_triangles tess,
                        mr_normals = get_normals tess, mr_edges = get_edges tess\<rparr>, out)))"

type_synonym cache_key = "int \<times> real \<times> real \<times> bool \<times> bool"

definition make_key ::
  "shape list \<Rightarrow> real \<Rightarrow> real \<Rightarrow> bool \<Rightarrow> bool \<Rightarrow> bool \<Rightarrow> bool \<Rightarrow> py_error + cache_key" where
  "make_key shapes quality angular_tolerance c_edges c_faces debug progress =
     (case shapes of
        [] \<Rightarrow> Inl IndexError
      | s # _ \<Rightarrow> Inr (HashCode s 2147483647, quality, angular_tolerance, c_edges, c_faces))"

text \<open>
  The decorator computes the key as \<^verbatim>\<open>make_key(*args, **kwargs)\<close> from the arguments
  of the call to \<^verbatim>\<open>tessellate\<close>. The fourth and fifth parameters of \<^verbatim>\<open>tessellate\<close>
  are \<^verbatim>\<open>compute_faces, compute_edges\<close>, those of \<^verbatim>\<open>make_key\<close> are
  \<^verbatim>\<open>compute_edges, compute_faces\<close>: flags passed by position reach \<^verbatim>\<open>make_key\<close>
  in the caller's order, flags passed by keyword reach it by name (an omitted flag is
  \<^verbatim>\<open>True\<close> for both functions). With \<^verbatim>\<open>compute_faces\<close> passed by position and
  \<^verbatim>\<open>compute_edges\<close> by keyword, \<^verbatim>\<open>make_key\<close> is given its fourth parameter
  twice and the call raises.
\<close>

datatype passing = Positional | Keyword | Mixed

definition tessellate_key ::
  "passing \<Rightarrow> shape list \<Rightarrow> real \<Rightarrow> real \<Rightarrow> bool \<Rightarrow> bool \<Rightarrow> bool \<Rightarrow> bool \<Rightarrow> py_error + cache_key" where
  "tessellate_key how shapes quality angular_tolerance c_faces c_edges debug progress =
     (case how of
        Positional \<Rightarrow> make_key shapes quality angular_tolerance c_faces c_edges debug progress
      | Keyword \<Rightarrow> make_key shapes quality angular_tolerance c_edges c_faces debug progress
      | Mixed \<Rightarrow> Inl (TypeError ''make_key() got multiple values for argument compute_edges''))"

text \<open>
  \<^verbatim>\<open>get_size\<close> on the Python values it distinguishes; \<^verbatim>\<open>sys.getsizeof\<close> depends on
  the interpreter and is a parameter. An array is given by its number of elements and
  the size of one.
\<close>

datatype pyobj =
    PyDict "(string \<times> pyobj) list"
  | PyNdarray nat nat
  | PyTuple "pyobj list"
  | PyList "pyobj list"
  | PyOther

fun get_size :: "(pyobj \<Rightarrow> nat) \<Rightarrow> pyobj \<Rightarrow> nat" where
  "get_size getsizeof (PyDict kvs) =
     getsizeof (PyDict kvs) + sum_list (map (\<lambda>kv. get_size getsizeof (snd kv) + length (fst kv)) kvs)"
| "get_size getsizeof (PyNdarray n itemsize) = getsizeof (PyNdarray n itemsize) + n * itemsize"
| "get_size getsizeof (PyTuple xs) = getsizeof (PyTuple xs) + sum_list (map (get_size getsizeof) xs)"
| "get_size getsizeof (PyList xs) = getsizeof (PyList xs) + sum_list (map (get_size getsizeof) xs)"
| "get_size getsizeof PyOther = getsizeof PyOther"

definition result_obj :: "mesh_result \<Rightarrow> pyobj" where
  "result_obj r =
     PyDict [(''vertices'', PyNdarray (length (mr_vertices r)) 4),
             (''triangles'', PyNdarray (length (mr_triangles r)) 4),
             (''normals'', PyNdarray (length (mr_normals r)) 4),
             (''edges'', PyNdarray (6 * length (mr_edges r)) 4)]"

text \<open>
  Modelled from the spec: the cache (\<^verbatim>\<open>cachetools.LRUCache\<close>, not among the sources)
  is bounded by the accounted size of its values and evicts the least recently used
  entry first. As in that library, a lookup makes the entry the most recently used, an
  insertion evicts entries while the new value does not fit, and a value larger than
  the bound is refused with \<^verbatim>\<open>ValueError\<close>. The entries are kept with their sizes,
  the least recently used first.
\<close>

type_synonym lru_cache = "(cache_key \<times> mesh_result \<times> nat) list"

definition maxsize :: nat where
  "maxsize = 128 * 1024 * 1024"

definition currsize :: "lru_cache \<Rightarrow> nat" where
  "currsize c = sum_list (map (\<lambda>e. snd (snd e)) c)"

definition cache_getitem :: "lru_cache \<Rightarrow> cache_key \<Rightarrow> (mesh_result \<times> lru_cache) option" where
  "cache_getitem c k =
     (case map_of c k of
        None \<Rightarrow> None
      | Some (v, sz) \<Rightarrow> Some (v, filter (\<lambda>e. fst e \<noteq> k) c @ [(k, v, sz)]))"

fun popitems :: "nat \<Rightarrow> lru_cache \<Rightarrow> py_error + lru_cache" where
  "popitems sz [] = (if sz > maxsize then Inl (KeyError ''cache is empty'') else Inr [])"
| "popitems sz (e # es) =
     (if currsize (e # es) + sz > maxsize then popitems sz es else Inr (e # es))"

definition cache_setitem ::
  "(mesh_result \<Rightarrow> nat) \<Rightarrow> lru_cache \<Rightarrow> cache_key \<Rightarrow> mesh_result \<Rightarrow> py_error + lru_cache" where
  "cache_setitem sizeof c k v =
     (let sz = sizeof v
      in if sz > maxsize then Inl (ValueError ''value too large'')
         else case (case map_of c k of
                      None \<Rightarrow> popitems sz c
                    | Some (old, oldsz) \<Rightarrow> if oldsz < sz then popitems sz c else Inr c) of
                Inl err \<Rightarrow> Inl err
              | Inr c' \<Rightarrow> Inr (filter (\<lambda>e. fst e \<noteq> k) c' @ [(k, v, sz)]))"

text \<open>
  \<^verbatim>\<open>tessellate\<close> as decorated by \<^verbatim>\<open>cached(cache, key=make_key)\<close>: the key, a
  lookup, on a miss the body and the insertion; a value that is too large is returned
  without being stored. The module's cache is passed in and returned.
\<close>

definition tessellate ::
  "(pyobj \<Rightarrow> nat) \<Rightarrow> kernel \<Rightarrow> passing \<Rightarrow> lru_cache \<Rightarrow>
   shape list \<Rightarrow> real \<Rightarrow> real \<Rightarrow> bool \<Rightarrow> bool \<Rightarrow> bool \<Rightarrow> bool \<Rightarrow>
   ((py_error + mesh_result) \<times> string list) \<times> lru_cache" where
  "tessellate getsizeof k how cache shapes quality angular_tolerance c_faces c_edges debug progress =
     (case tessellate_key how shapes quality angular_tolerance c_faces c_edges debug progress of
        Inl err \<Rightarrow> ((Inl err, []), cache)
      | Inr key \<Rightarrow>
          (case cache_getitem cache key of
             Some (v, cache') \<Rightarrow> ((Inr v, []), cache')
           | None \<Rightarrow>
               (case tessellate_body k shapes quality angular_tolerance c_faces c_edges debug progress of
                  (Inl err, out) \<Rightarrow> ((Inl err, out), cache)
                | (Inr v, out) \<Rightarrow>
                    (case cache_setitem (\<lambda>r. get_size getsizeof (result_obj r)) cache key v of
                       Inl (ValueError msg) \<Rightarrow> ((Inr v, out), cache)
                     | Inl err \<Rightarrow> ((Inl err, out), cache)
                     | Inr cache' \<Rightarrow> ((Inr v, out), cache')))))"

text \<open>
  \<^verbatim>\<open>compute_quality\<close>. \<^verbatim>\<open>round_sig\<close> (\<^verbatim>\<open>jupyter_cadquery.utils\<close>) is not among
  the sources and is a parameter of the model.
\<close>

record bounding_box =
  xsize :: real
  ysize :: real
  zsize :: real

definition compute_quality :: "(real \<Rightarrow> nat \<Rightarrow> real) \<Rightarrow> bounding_box \<Rightarrow> real \<Rightarrow> real" where
  "compute_quality round_sig bb deviation =
     (let quality = round_sig
            ((round_sig (xsize bb) 2 + round_sig (ysize bb) 2 + round_sig (zsize bb) 2) / 300 * deviation) 2
      in quality)"

text \<open>
  Modelled from the spec: \<^verbatim>\<open>round_sig(x, n)\<close> rounds \<open>x\<close> to \<open>n\<close> significant
  decimal digits. With \<open>e\<close> the decimal exponent of \<open>x\<close>, that is the nearest multiple
  of \<open>10\<close> to the power \<open>e - (n - 1)\<close>.
\<close>

definition round_sig_decimal :: "real \<Rightarrow> nat \<Rightarrow> real" where
  "round_sig_decimal x n =
     (if x = 0 then 0
      else let e = \<lfloor>log 10 \<bar>x\<bar>\<rfloor>
           in real_of_int (round (x * 10 powi (int n - 1 - e))) * 10 powi (e - (int n - 1)))"

text \<open>
  \<^verbatim>\<open>bbox_edges\<close>: the list display subscripts the dictionary 72 times, from left to
  right; a missing key raises \<^verbatim>\<open>KeyError\<close>.
\<close>

definition bbox_keys :: "string list" where
  "bbox_keys =
    [''xmax'', ''ymax'', ''zmin'',  ''xmax'', ''ymax'', ''zmax'',
     ''xmax'', ''ymin'', ''zmax'',  ''xmax'', ''ymax'', ''zmax'',
     ''xmax'', ''ymin'', ''zmin'',  ''xmax'', ''ymax'', ''zmin'',
     ''xmax'', ''ymin'', ''zmin'',  ''xmax'', ''ymin'', ''zmax'',
     ''xmin'', ''ymax'', ''zmax'',  ''xmax'', ''ymax'', ''zmax'',
     ''xmin'', ''ymax'', ''zmin'',  ''xmax'', ''ymax'', ''zmin'',
     ''xmin'', ''ymax'', ''zmin'',  ''xmin'', ''ymax'', ''zmax'',
     ''xmin'', ''ymin'', ''zmax'',  ''xmax'', ''ymin'', ''zmax'',
     ''xmin'', ''ymin'', ''zmax'',  ''xmin'', ''ymax'', ''zmax'',
     ''xmin'', ''ymin'', ''zmin'',  ''xmax'', ''ymin'', ''zmin'',
     ''xmin'', ''ymin'', ''zmin'',  ''xmin'', ''ymax'', ''zmin'',
     ''xmin'', ''ymin'', ''zmin'',  ''xmin'', ''ymin'', ''zmax'']"

fun subscripts :: "(string \<rightharpoonup> 'a) \<Rightarrow> string list \<Rightarrow> py_error + 'a list" where
  "subscripts bb [] = Inr []"
| "subscripts bb (key # keys) =
     (case bb key of
        None \<Rightarrow> Inl (KeyError key)
      | Some v \<Rightarrow> (case subscripts bb keys of Inl err \<Rightarrow> Inl err | Inr vs \<Rightarrow> Inr (v # vs)))"

definition bbox_edges :: "(string \<rightharpoonup> real) \<Rightarrow> py_error + real list" where
  "bbox_edges bb = subscripts bb bbox_keys"

text \<open>Reading a flat buffer as points, and a list of points as consecutive pairs.\<close>

fun triplets :: "'a list \<Rightarrow> ('a \<times> 'a \<times> 'a) list" where
  "triplets (x # y # z # rest) = (x, y, z) # triplets rest"
| "triplets rest = []"

fun point_pairs :: "'a list \<Rightarrow> ('a \<times> 'a) list" where
  "point_pairs (p # q # rest) = (p, q) # point_pairs rest"
| "point_pairs rest = []"

text \<open>
  The twelve edges of an axis-aligned box, by direction: each runs from the lower to the
  upper extent of one axis, at one of the four combinations of extents of the other two.
\<close>

definition box_edges ::
  "real \<Rightarrow> real \<Rightarrow> real \<Rightarrow> real \<Rightarrow> real \<Rightarrow> real \<Rightarrow> (coord \<times> coord) list" where
  "box_edges x0 x1 y0 y1 z0 z1 =
     [((x0, y, z), (x1, y, z)). y \<leftarrow> [y0, y1], z \<leftarrow> [z0, z1]] @
     [((x, y0, z), (x, y1, z)). x \<leftarrow> [x0, x1], z \<leftarrow> [z0, z1]] @
     [((x, y, z0), (x, y, z1)). x \<leftarrow> [x0, x1], y \<leftarrow> [y0, y1]]"

definition unit_box :: "string \<rightharpoonup> real" where
  "unit_box = [''xmin'' \<mapsto> 0, ''xmax'' \<mapsto> 1, ''ymin'' \<mapsto> 0, ''ymax'' \<mapsto> 1,
               ''zmin'' \<mapsto> 0, ''zmax'' \<mapsto> 1]"

text \<open>
  \<^verbatim>\<open>discretize_edge\<close>. The curve adaptor of the edge gives the parameter range and
  the points of the curve; the kernel's sampler is a parameter: initialised with the
  curve, the deflection and the range, it reports whether it is done and its parameters
  (\<^verbatim>\<open>Parameter(i)\<close> is 1-based).
\<close>

record curve =
  FirstParameter :: real
  LastParameter :: real
  Value :: "real \<Rightarrow> coord"

record discretizer =
  IsDone :: bool
  parameters :: "real list"

definition NbPoints :: "discretizer \<Rightarrow> int" where
  "NbPoints d = int (length (parameters d))"

definition Parameter :: "discretizer \<Rightarrow> int \<Rightarrow> real" where
  "Parameter d i = parameters d ! nat (i - 1)"

definition discretize_edge ::
  "(curve \<Rightarrow> real \<Rightarrow> real \<Rightarrow> real \<Rightarrow> discretizer) \<Rightarrow> curve \<Rightarrow> real \<Rightarrow>
   py_error + (coord \<times> coord) list" where
  "discretize_edge Initialize curve_adaptator deflection =
     (let discretizer = Initialize curve_adaptator deflection
            (FirstParameter curve_adaptator) (LastParameter curve_adaptator)
      in if \<not> IsDone discretizer then Inl (AssertionError ''Discretizer not done.'')
         else (let points = map (\<lambda>i. Value curve_adaptator (Parameter discretizer i))
                                (py_range 1 (NbPoints discretizer + 1));
                   segs = map (\<lambda>i. (points ! nat i, points ! nat (i + 1)))
                              (py_range 0 (int (length points) - 1))
               in Inr segs))"

subsection \<open>Notions used to state the properties\<close>

text \<open>
  A triangulation of the kernel refers to its own nodes: every index of a triangle is
  between 1 and the number of nodes. A face without triangulation has nothing to check.
\<close>

definition valid_triangle :: "triangulation \<Rightarrow> int \<times> int \<times> int \<Rightarrow> bool" where
  "valid_triangle poly t =
     (case t of (a, b, c) \<Rightarrow>
        1 \<le> a \<and> a \<le> NbNodes poly \<and> 1 \<le> b \<and> b \<le> NbNodes poly \<and> 1 \<le> c \<and> c \<le> NbNodes poly)"

definition valid_face :: "face \<Rightarrow> bool" where
  "valid_face f =
     (case Triangulation f of
        None \<Rightarrow> True
      | Some poly \<Rightarrow> list_all (valid_triangle poly) (tris poly))"

text \<open>The nodes a face contributes, and those for which it contributes normals.\<close>

definition node_count :: "face \<Rightarrow> nat" where
  "node_count f = (case Triangulation f of None \<Rightarrow> 0 | Some poly \<Rightarrow> length (nodes poly))"

definition uv_node_count :: "face \<Rightarrow> nat" where
  "uv_node_count f =
     (case Triangulation f of
        None \<Rightarrow> 0
      | Some poly \<Rightarrow> if HasUVNodes poly then length (nodes poly) else 0)"

text \<open>The number of vertices in the flat buffer of coordinates.\<close>

definition total_vertex_count :: "tessellator \<Rightarrow> nat" where
  "total_vertex_count self = length (vertices self) div 3"

text \<open>
  The indices emitted while the face \<open>f\<close> is processed after the faces \<open>pre\<close>: what
  the triangle buffer gains in that step.
\<close>

definition emitted :: "face list \<Rightarrow> face \<Rightarrow> tessellator \<Rightarrow> int list" where
  "emitted pre f self =
     drop (length (triangles (tessellate_faces pre self)))
          (triangles (tessellate_faces (pre @ [f]) self))"

text \<open>The node indices of a polygon on a triangulation, in order.\<close>

fun polygon_nodes :: "polygon \<Rightarrow> int list" where
  "polygon_nodes (PolyNode ns) = ns"
| "polygon_nodes (PolyArray lower vs) = vs"

text \<open>
  The segments of one edge: none without an adjacent face, without a polygon or without a
  triangulation of the first adjacent face; otherwise the consecutive pairs of the
  transformed nodes that the polygon names.
\<close>

definition edge_segments :: "edge \<Rightarrow> (coord \<times> coord) list" where
  "edge_segments e =
     (case face_list e of
        [] \<Rightarrow> []
      | first # _ \<Rightarrow>
          (case PolygonOnTriangulation e of
             None \<Rightarrow> []
           | Some poly \<Rightarrow>
               (case Triangulation first of
                  None \<Rightarrow> []
                | Some t \<Rightarrow>
                    (let pts = map (\<lambda>n. Transformation first (Node t n)) (polygon_nodes poly)
                     in zip pts (tl pts)))))"

text \<open>
  The polygon of an edge refers to nodes of the triangulation of the first adjacent
  face: every index is between 1 and the number of nodes (and there is no index when
  that face has no triangulation). An edge without face or polygon has nothing to check.
\<close>

definition valid_edge :: "edge \<Rightarrow> bool" where
  "valid_edge e =
     (case face_list e of
        [] \<Rightarrow> True
      | first # _ \<Rightarrow>
          (case PolygonOnTriangulation e of
             None \<Rightarrow> True
           | Some poly \<Rightarrow>
               (case Triangulation first of
                  None \<Rightarrow> polygon_nodes poly = []
                | Some t \<Rightarrow> list_all (\<lambda>n. 1 \<le> n \<and> n \<le> NbNodes t) (polygon_nodes poly))))"

text \<open>Whether a face carries a triangulation, and whether that exposes UV nodes.\<close>

definition triangulated :: "face \<Rightarrow> bool" where
  "triangulated f = (Triangulation f \<noteq> None)"

definition exposes_uv :: "face \<Rightarrow> bool" where
  "exposes_uv f = (case Triangulation f of None \<Rightarrow> False | Some poly \<Rightarrow> HasUVNodes poly)"

text \<open>The shape that \<^verbatim>\<open>tessellate\<close> meshes, for a list of shapes that is not empty.\<close>

definition compound_of :: "kernel \<Rightarrow> shape list \<Rightarrow> shape" where
  "compound_of k shapes = (if length shapes > 1 then makeCompound k shapes else hd shapes)"

subsection \<open>Example inputs\<close>

text \<open>
  A face meshed by one triangle on three nodes, with a given orientation and with or
  without UV nodes; its surface normal is the z axis.
\<close>

definition one_triangle :: "bool \<Rightarrow> triangulation" where
  "one_triangle uv =
     \<lparr>nodes = [(0, 0, 0), (1, 0, 0), (0, 1, 0)], tris = [(1, 2, 3)],
      uvnodes = (if uv then Some [(0, 0), (1, 0), (0, 1)] else None)\<rparr>"

definition flat_face :: "orientation \<Rightarrow> bool \<Rightarrow> face" where
  "flat_face ori uv =
     \<lparr>Orientation = ori, Triangulation = Some (one_triangle uv),
      Transformation = (\<lambda>p. p), Normal = (\<lambda>u v. (0, 0, 1))\<rparr>"

text \<open>
  A straight curve on the x axis, a sampler that is done with three parameters (the
  ends of the range and its middle), and one that does not converge.
\<close>

definition line_curve :: curve where
  "line_curve = \<lparr>FirstParameter = 0, LastParameter = 1, Value = (\<lambda>t. (t, 0, 0))\<rparr>"

definition three_point_sampler :: "curve \<Rightarrow> real \<Rightarrow> real \<Rightarrow> real \<Rightarrow> discretizer" where
  "three_point_sampler c d a b = \<lparr>IsDone = True, parameters = [a, (a + b) / 2, b]\<rparr>"

definition failing_sampler :: "curve \<Rightarrow> real \<Rightarrow> real \<Rightarrow> real \<Rightarrow> discretizer" where
  "failing_sampler c d a b = \<lparr>IsDone = False, parameters = []\<rparr>"

text \<open>
  An edge of the example face with a given polygon on its triangulation, and an edge
  that no face shares.
\<close>

definition border_edge :: "polygon option \<Rightarrow> edge" where
  "border_edge p = \<lparr>face_list = [flat_face TopAbs_FORWARD True], PolygonOnTriangulation = p\<rparr>"

definition free_edge :: edge where
  "free_edge = \<lparr>face_list = [], PolygonOnTriangulation = Some (PolyNode [1, 2])\<rparr>"

text \<open>
  A shape with the example face and five edges: a polygon of three nodes, an edge on no
  face, an edge without polygon, a polygon of two nodes in the array interface, and a
  polygon of a single node.
\<close>

definition frame :: shape where
  "frame =
     \<lparr>HashCode = (\<lambda>upper. 1), solids = [],
      faces = [flat_face TopAbs_FORWARD True],
      edge_map = [border_edge (Some (PolyNode [1, 2, 3])), free_edge, border_edge None,
                  border_edge (Some (PolyArray 5 [3, 1])), border_edge (Some (PolyNode [2]))]\<rparr>"

text \<open>
  A shape with one meshed face and one edge, with a given structural hash; a kernel
  whose meshing succeeds and leaves the shape as it is; a kernel whose meshing raises;
  and an interpreter for which every object header has 64 bytes.
\<close>

definition panel :: "int \<Rightarrow> shape" where
  "panel h =
     \<lparr>HashCode = (\<lambda>upper. h), solids = [],
      faces = [flat_face TopAbs_FORWARD True],
      edge_map = [border_edge (Some (PolyNode [1, 2]))]\<rparr>"

definition working_kernel :: kernel where
  "working_kernel =
     \<lparr>Clean_s = (\<lambda>s. s),
      BRepMesh_IncrementalMesh = (\<lambda>s quality relative angular_tolerance parallel. Inr s),
      makeCompound = (\<lambda>ss. \<lparr>HashCode = (\<lambda>upper. 0), solids = concat (map solids ss),
                             faces = concat (map faces ss),
                             edge_map = concat (map edge_map ss)\<rparr>)\<rparr>"

definition failing_kernel :: kernel where
  "failing_kernel =
     working_kernel\<lparr>BRepMesh_IncrementalMesh :=
       (\<lambda>s quality relative angular_tolerance parallel. Inl (StandardFailure ''BRepMesh''))\<rparr>"

definition header64 :: "pyobj \<Rightarrow> nat" where
  "header64 obj = 64"

text \<open>The mesh of the example shape.\<close>

definition panel_mesh :: mesh_result where
  "panel_mesh =
     \<lparr>mr_vertices = [0, 0, 0, 1, 0, 0, 0, 1, 0], mr_triangles = [0, 1, 2],
      mr_normals = [0, 0, 1, 0, 0, 1, 0, 0, 1], mr_edges = [((0, 0, 0), (1, 0, 0))]\<rparr>"

section \<open>Properties\<close>

subsection \<open>Ranges and one-based access\<close>

lemma py_range_shift: "py_range a (a + int n) = map (\<lambda>k. a + int k) [0..<n]"
proof (induction n)
  case 0
  then show ?case by (simp add: py_range_def)
next
  case (Suc n)
  have "py_range a (a + int (Suc n)) = py_range a (a + int n) @ [a + int n]"
    by (simp add: py_range_def upto_rec2)
  with Suc show ?case by simp
qed

lemma map_one_based:
  "map (\<lambda>i. f (xs ! nat (i - 1))) (py_range 1 (int (length xs) + 1)) = map f xs"
proof -
  have "py_range 1 (int (length xs) + 1) = map (\<lambda>k. 1 + int k) [0..<length xs]"
    using py_range_shift [of 1 "length xs"] by (simp add: add.commute)
  then have "map (\<lambda>i. f (xs ! nat (i - 1))) (py_range 1 (int (length xs) + 1))
             = map (\<lambda>k. f (xs ! k)) [0..<length xs]"
    by (simp add: comp_def)
  also have "\<dots> = map f (map (\<lambda>k. xs ! k) [0..<length xs])" by (simp add: comp_def)
  also have "\<dots> = map f xs" by (simp only: map_nth)
  finally show ?thesis .
qed

subsection \<open>The bounding-box wireframe\<close>

text \<open>
  Claim C10. For a dictionary holding the six extents, \<^verbatim>\<open>bbox_edges\<close> returns the
  fixed sequence of 72 scalars below: 24 points, 12 segments, which are the twelve edges
  of the box, each once. The result is determined by the six extents. For the unit box
  the first segment joins \<open>(1, 1, 0)\<close> and \<open>(1, 1, 1)\<close>.
\<close>

theorem bbox_edges_sequence:
  assumes "bb ''xmin'' = Some x0" and "bb ''xmax'' = Some x1"
      and "bb ''ymin'' = Some y0" and "bb ''ymax'' = Some y1"
      and "bb ''zmin'' = Some z0" and "bb ''zmax'' = Some z1"
  shows "(\<exists>vs. bbox_edges bb = Inr vs \<and>
           vs = [x1, y1, z0,  x1, y1, z1,   x1, y0, z1,  x1, y1, z1,
                 x1, y0, z0,  x1, y1, z0,   x1, y0, z0,  x1, y0, z1,
                 x0, y1, z1,  x1, y1, z1,   x0, y1, z0,  x1, y1, z0,
                 x0, y1, z0,  x0, y1, z1,   x0, y0, z1,  x1, y0, z1,
                 x0, y0, z1,  x0, y1, z1,   x0, y0, z0,  x1, y0, z0,
                 x0, y0, z0,  x0, y1, z0,   x0, y0, z0,  x0, y0, z1] \<and>
           length vs = 72 \<and> length (triplets vs) = 24 \<and>
           length (point_pairs (triplets vs)) = 12 \<and>
           mset (point_pairs (triplets vs)) = mset (box_edges x0 x1 y0 y1 z0 z1)) \<and>
         (\<exists>us. bbox_edges unit_box = Inr us \<and>
           hd (point_pairs (triplets us)) = ((1, 1, 0), (1, 1, 1)))"
proof -
  have unit: "\<exists>us. bbox_edges unit_box = Inr us \<and>
                hd (point_pairs (triplets us)) = ((1, 1, 0), (1, 1, 1))"
    by (simp add: bbox_edges_def bbox_keys_def unit_box_def)
  show ?thesis
    using assms unit by (simp add: bbox_edges_def bbox_keys_def box_edges_def)
qed

theorem bbox_edges_sequence_witness:
  "\<exists>vs. bbox_edges unit_box = Inr vs \<and> length vs = 72 \<and>
        length (point_pairs (triplets vs)) = 12 \<and>
        mset (point_pairs (triplets vs)) = mset (box_edges 0 1 0 1 0 1)"
  using bbox_edges_sequence [of unit_box 0 1 0 1 0 1]
  by (simp add: unit_box_def)

subsection \<open>The quality estimate\<close>

lemma decimal_exponent:
  fixes x :: real
  assumes "10 powi e \<le> x" and "x < 10 powi (e + 1)"
  shows "\<lfloor>log 10 x\<rfloor> = e"
proof -
  have x0: "0 < x" using assms(1) by (smt (verit) zero_less_power_int)
  have p: "10 powi e = (10::real) powr (of_int e)" for e
    by (simp add: powr_real_of_int')
  have "of_int e \<le> log 10 x" using assms(1) x0 by (simp add: le_log_iff p)
  moreover have "log 10 x < of_int (e + 1)" using assms(2) x0
    by (simp only: p log_less_iff)
  ultimately show ?thesis by (simp add: floor_eq_iff)
qed

lemma round_sig_decimal_26_25: "round_sig_decimal (26 / 25) 2 = 1"
proof -
  have "\<lfloor>log 10 (26 / 25 :: real)\<rfloor> = 0"
    by (rule decimal_exponent) simp_all
  then show ?thesis by (simp add: round_sig_decimal_def round_def)
qed

lemma round_sig_decimal_51_50: "round_sig_decimal (51 / 50) 2 = 1"
proof -
  have "\<lfloor>log 10 (51 / 50 :: real)\<rfloor> = 0"
    by (rule decimal_exponent) simp_all
  then show ?thesis by (simp add: round_sig_decimal_def round_def)
qed

lemma round_sig_decimal_2: "round_sig_decimal 2 2 = 2"
proof -
  have "\<lfloor>log 10 (2 :: real)\<rfloor> = 0"
    by (rule decimal_exponent) simp_all
  then show ?thesis by (simp add: round_sig_decimal_def round_def)
qed

lemma round_sig_decimal_3: "round_sig_decimal 3 2 = 3"
proof -
  have "\<lfloor>log 10 (3 :: real)\<rfloor> = 0"
    by (rule decimal_exponent) simp_all
  then show ?thesis by (simp add: round_sig_decimal_def round_def)
qed

lemma round_sig_decimal_1_500: "round_sig_decimal (1 / 500) 2 = 1 / 500"
proof -
  have "\<lfloor>log 10 (1 / 500 :: real)\<rfloor> = - 3"
    by (rule decimal_exponent) (simp_all add: power_int_minus)
  then show ?thesis by (simp add: round_sig_decimal_def round_def power_int_minus)
qed

text \<open>
  Claim C5. Whatever \<^verbatim>\<open>round_sig\<close> is, \<^verbatim>\<open>compute_quality\<close> returns
  \<^verbatim>\<open>round_sig((round_sig(xsize,2) + round_sig(ysize,2) + round_sig(zsize,2)) / 300 * deviation, 2)\<close>,
  as a function of the box and the deviation alone; and a second box whose three sizes
  have the same roundings to two significant digits gets the same quality.
\<close>

theorem compute_quality_formula:
  "compute_quality round_sig bb deviation =
     round_sig ((round_sig (xsize bb) 2 + round_sig (ysize bb) 2 + round_sig (zsize bb) 2)
                / 300 * deviation) 2 \<and>
   (round_sig (xsize bb') 2 = round_sig (xsize bb) 2 \<and>
    round_sig (ysize bb') 2 = round_sig (ysize bb) 2 \<and>
    round_sig (zsize bb') 2 = round_sig (zsize bb) 2 \<longrightarrow>
    compute_quality round_sig bb' deviation = compute_quality round_sig bb deviation)"
  by (simp add: compute_quality_def)

theorem compute_quality_formula_witness:
  "round_sig_decimal (51 / 50) 2 = round_sig_decimal (26 / 25) 2 \<and>
   compute_quality round_sig_decimal \<lparr>xsize = 51 / 50, ysize = 2, zsize = 3\<rparr> (1 / 10) =
   compute_quality round_sig_decimal \<lparr>xsize = 26 / 25, ysize = 2, zsize = 3\<rparr> (1 / 10) \<and>
   compute_quality round_sig_decimal \<lparr>xsize = 26 / 25, ysize = 2, zsize = 3\<rparr> (1 / 10) = 1 / 500"
  using compute_quality_formula [of round_sig_decimal
          "\<lparr>xsize = 26 / 25, ysize = 2, zsize = 3\<rparr>" "1 / 10"
          "\<lparr>xsize = 51 / 50, ysize = 2, zsize = 3\<rparr>"]
  by (simp add: round_sig_decimal_26_25 round_sig_decimal_51_50 round_sig_decimal_2
        round_sig_decimal_3 round_sig_decimal_1_500)

subsection \<open>One face of the mesh extraction\<close>

lemma map_nodes:
  "map (\<lambda>i. g (Node poly i)) (py_range 1 (NbNodes poly + 1)) = map g (nodes poly)"
  using map_one_based [of g "nodes poly"] by (simp add: Node_def NbNodes_def)

lemma map_triangles:
  "map (\<lambda>i. g (Triangle poly i)) (py_range 1 (NbTriangles poly + 1)) = map g (tris poly)"
  using map_one_based [of g "tris poly"] by (simp add: Triangle_def NbTriangles_def)

lemma range_nodes_length: "length (py_range 1 (NbNodes poly + 1)) = length (nodes poly)"
  using py_range_shift [of 1 "length (nodes poly)"] by (simp add: NbNodes_def add.commute)

lemma length_concat_const:
  "(\<And>x. x \<in> set xs \<Longrightarrow> length (g x) = c) \<Longrightarrow> length (concat (map g xs)) = c * length xs"
  by (induction xs) auto

lemma normal_coords_length: "length (normal_coords f poly internal i) = 3"
  by (simp add: normal_coords_def Coord_def Let_def split: prod.splits)

lemma tessellate_face_None:
  "Triangulation f = None \<Longrightarrow> tessellate_face f (self, offset) = (self, offset)"
  by (simp add: tessellate_face_def Let_def split: prod.splits)

lemma tessellate_face_offset:
  "snd (tessellate_face f (self, offset)) = offset + int (node_count f)"
  by (simp add: tessellate_face_def node_count_def NbNodes_def Let_def
      split: option.splits prod.splits)

lemma tessellate_face_vertices:
  "Triangulation f = Some poly \<Longrightarrow>
   vertices (fst (tessellate_face f (self, offset))) =
     vertices self @ concat (map (\<lambda>p. Coord (Transformation f p)) (nodes poly))"
  using map_nodes [of "\<lambda>p. Coord (Transformation f p)" poly]
  by (simp add: tessellate_face_def Let_def split: prod.splits)

lemma tessellate_face_triangles:
  "Triangulation f = Some poly \<Longrightarrow>
   triangles (fst (tessellate_face f (self, offset))) =
     triangles self @
     concat (map (\<lambda>t. case t of (n0, n1, n2) \<Rightarrow>
                     if Orientation f = TopAbs_REVERSED
                     then [n0 + offset, n2 + offset, n1 + offset]
                     else [n0 + offset, n1 + offset, n2 + offset]) (tris poly))"
proof -
  assume p: "Triangulation f = Some poly"
  define i1 :: nat where "i1 = (if Orientation f = TopAbs_REVERSED then 2 else 1)"
  define i2 :: nat where "i2 = (if Orientation f = TopAbs_REVERSED then 1 else 2)"
  have a: "triangles (fst (tessellate_face f (self, offset))) =
        triangles self @ concat (map (\<lambda>i. let coord = Triangle poly i
                                              in [item coord 0 + offset,
                                                  item coord i1 + offset,
                                                  item coord i2 + offset])
                                       (py_range 1 (NbTriangles poly + 1)))"
    using p by (simp add: tessellate_face_def Let_def i1_def i2_def split: prod.splits)
  have b: "map (\<lambda>i. let coord = Triangle poly i
                                              in [item coord 0 + offset,
                                                  item coord i1 + offset,
                                                  item coord i2 + offset])
                                       (py_range 1 (NbTriangles poly + 1))
       = map (\<lambda>t. [item t 0 + offset, item t i1 + offset, item t i2 + offset]) (tris poly)"
    using map_triangles [of "\<lambda>t. [item t 0 + offset, item t i1 + offset, item t i2 + offset]" poly]
    by (simp add: Let_def)
  have c: "(\<lambda>t. [item t 0 + offset, item t i1 + offset, item t i2 + offset])
         = (\<lambda>t. case t of (n0, n1, n2) \<Rightarrow>
                     if Orientation f = TopAbs_REVERSED
                     then [n0 + offset, n2 + offset, n1 + offset]
                     else [n0 + offset, n1 + offset, n2 + offset])"
    by (auto simp: i1_def i2_def fun_eq_iff)
  have "triangles (fst (tessellate_face f (self, offset))) =
        triangles self @
        concat (map (\<lambda>t. [item t 0 + offset, item t i1 + offset, item t i2 + offset]) (tris poly))"
    by (simp only: a b)
  then show ?thesis by (simp only: c)
qed

lemma tessellate_face_normals:
  "Triangulation f = Some poly \<Longrightarrow>
   length (normals (fst (tessellate_face f (self, offset)))) =
     length (normals self) + (if HasUVNodes poly then 3 * length (nodes poly) else 0)"
proof -
  assume p: "Triangulation f = Some poly"
  have "length (concat (map (normal_coords f poly b) (py_range 1 (NbNodes poly + 1))))
        = 3 * length (nodes poly)" for b
    using length_concat_const [of "py_range 1 (NbNodes poly + 1)" "normal_coords f poly b" 3]
    by (simp add: normal_coords_length range_nodes_length)
  then show ?thesis
    using p by (simp add: tessellate_face_def Let_def split: prod.splits)
qed

lemma tessellate_loop_append:
  "tessellate_loop (xs @ ys) st = tessellate_loop ys (tessellate_loop xs st)"
  by (induction xs arbitrary: st) auto

lemma tessellate_face_vertices_length:
  "length (vertices (fst (tessellate_face f st))) = length (vertices (fst st)) + 3 * node_count f"
proof (cases st)
  case (Pair self offset)
  show ?thesis
  proof (cases "Triangulation f")
    case None
    with Pair show ?thesis by (simp add: tessellate_face_None node_count_def)
  next
    case (Some poly)
    have "length (concat (map (\<lambda>p. Coord (Transformation f p)) (nodes poly))) = 3 * length (nodes poly)"
      by (rule length_concat_const) (simp add: Coord_def split: prod.splits)
    with Some Pair show ?thesis
      by (simp add: tessellate_face_vertices node_count_def)
  qed
qed

lemma tessellate_face_normals_length:
  "length (normals (fst (tessellate_face f st))) = length (normals (fst st)) + 3 * uv_node_count f"
proof (cases st)
  case (Pair self offset)
  show ?thesis
  proof (cases "Triangulation f")
    case None
    with Pair show ?thesis by (simp add: tessellate_face_None uv_node_count_def)
  next
    case (Some poly)
    with Pair show ?thesis
      by (simp add: tessellate_face_normals uv_node_count_def)
  qed
qed

lemma tessellate_face_snd:
  "snd (tessellate_face f st) = snd st + int (node_count f)"
  by (cases st) (simp add: tessellate_face_offset)

lemma tessellate_loop_snd:
  "snd (tessellate_loop fs st) = snd st + int (sum_list (map node_count fs))"
  by (induction fs arbitrary: st) (simp_all add: tessellate_face_snd)

lemma tessellate_loop_vertices_length:
  "length (vertices (fst (tessellate_loop fs st))) =
     length (vertices (fst st)) + 3 * sum_list (map node_count fs)"
  by (induction fs arbitrary: st) (simp_all add: tessellate_face_vertices_length)

lemma tessellate_loop_normals_length:
  "length (normals (fst (tessellate_loop fs st))) =
     length (normals (fst st)) + 3 * sum_list (map uv_node_count fs)"
  by (induction fs arbitrary: st) (simp_all add: tessellate_face_normals_length)

lemma vertex_count_faces:
  "total_vertex_count (tessellate_faces fs self) = sum_list (map node_count fs)"
  by (simp add: total_vertex_count_def tessellate_faces_def tessellate_loop_vertices_length)

text \<open>What one face adds to the triangle buffer.\<close>

lemma tessellate_face_adds:
  assumes "valid_face f"
  shows "\<exists>new. triangles (fst (tessellate_face f st)) = triangles (fst st) @ new \<and>
           (\<forall>t \<in> set new. snd st + 1 \<le> t \<and> t \<le> snd st + int (node_count f))"
proof (cases st)
  case (Pair self offset)
  show ?thesis
  proof (cases "Triangulation f")
    case None
    with Pair show ?thesis by (simp add: tessellate_face_None)
  next
    case (Some poly)
    let ?emit = "\<lambda>t. case t of (n0, n1, n2) \<Rightarrow>
                     if Orientation f = TopAbs_REVERSED
                     then [n0 + offset, n2 + offset, n1 + offset]
                     else [n0 + offset, n1 + offset, n2 + offset]"
    have v: "\<forall>t \<in> set (tris poly). valid_triangle poly t"
      using assms Some by (simp add: valid_face_def list_all_iff)
    have "\<forall>x \<in> set (?emit t). offset + 1 \<le> x \<and> x \<le> offset + int (length (nodes poly))"
      if "t \<in> set (tris poly)" for t
      using v that by (cases t) (auto simp: valid_triangle_def NbNodes_def)
    then have "\<forall>x \<in> set (concat (map ?emit (tris poly))).
                 offset + 1 \<le> x \<and> x \<le> offset + int (length (nodes poly))"
      by auto
    with Some Pair show ?thesis
      by (simp add: tessellate_face_triangles node_count_def)
  qed
qed

lemma tessellate_faces_snoc:
  "tessellate_faces (pre @ [f]) self =
     fst (tessellate_face f (tessellate_loop pre (self\<lparr>vertices := [], triangles := [], normals := []\<rparr>, - 1)))"
  by (simp add: tessellate_faces_def tessellate_loop_append)

lemma emitted_range:
  assumes "valid_face f"
  shows "triangles (tessellate_faces (pre @ [f]) self) =
           triangles (tessellate_faces pre self) @ emitted pre f self \<and>
         (\<forall>t \<in> set (emitted pre f self).
            int (sum_list (map node_count pre)) \<le> t \<and>
            t < int (sum_list (map node_count pre)) + int (node_count f))"
proof -
  let ?st = "tessellate_loop pre (self\<lparr>vertices := [], triangles := [], normals := []\<rparr>, - 1)"
  obtain new where new: "triangles (fst (tessellate_face f ?st)) = triangles (fst ?st) @ new"
    and rng: "\<forall>t \<in> set new. snd ?st + 1 \<le> t \<and> t \<le> snd ?st + int (node_count f)"
    using tessellate_face_adds [OF assms, of ?st] by blast
  have pre: "tessellate_faces pre self = fst ?st" by (simp add: tessellate_faces_def)
  have e: "emitted pre f self = new"
    by (simp add: emitted_def tessellate_faces_snoc new pre)
  have off: "snd ?st = int (sum_list (map node_count pre)) - 1"
    by (simp add: tessellate_loop_snd)
  show ?thesis
    using new rng by (auto simp: e tessellate_faces_snoc pre off)
qed

lemma all_triangles_range:
  "list_all valid_face fs \<Longrightarrow>
   \<forall>t \<in> set (triangles (tessellate_faces fs self)). 0 \<le> t \<and> t < int (sum_list (map node_count fs))"
proof (induction fs rule: rev_induct)
  case Nil
  then show ?case by (simp add: tessellate_faces_def)
next
  case (snoc f fs)
  then have vf: "valid_face f" and vfs: "list_all valid_face fs" by simp_all
  from emitted_range [OF vf, of fs self] snoc.IH [OF vfs]
  show ?case by auto
qed

lemma tessellate_face_triangles_append:
  "\<exists>new. triangles (fst (tessellate_face f st)) = triangles (fst st) @ new"
proof (cases st)
  case (Pair self offset)
  show ?thesis
  proof (cases "Triangulation f")
    case None
    with Pair show ?thesis by (simp add: tessellate_face_None)
  next
    case (Some poly)
    with Pair show ?thesis by (simp add: tessellate_face_triangles)
  qed
qed

lemma tessellate_loop_triangles:
  "\<exists>new. triangles (fst (tessellate_loop fs st)) = triangles (fst st) @ new"
proof (induction fs arbitrary: st)
  case Nil
  then show ?case by simp
next
  case (Cons f fs)
  obtain a where a: "triangles (fst (tessellate_face f st)) = triangles (fst st) @ a"
    using tessellate_face_triangles_append by blast
  obtain b where "triangles (fst (tessellate_loop fs (tessellate_face f st))) =
                    triangles (fst (tessellate_face f st)) @ b"
    using Cons.IH by blast
  with a show ?case by simp
qed

lemmas run_faces = upto_rec1 tessellate_faces_def tessellate_face_def flat_face_def
  one_triangle_def init_def py_range_def NbNodes_def NbTriangles_def Triangle_def Node_def
  HasUVNodes_def UVNode_def Let_def normal_coords_def Coord_def SquareMagnitude_def
  Normalize_def Reverse_def

subsection \<open>Triangle indices\<close>

text \<open>
  Claim C1. When the triangles of every face refer to nodes of its own triangulation,
  every index in the triangle buffer is at least 0 and less than the number of vertices
  in the vertex buffer. Moreover the indices emitted while a face \<open>f\<close> is processed
  refer to the vertices appended for \<open>f\<close> itself: they are below the vertex count
  reached after \<open>f\<close>, so none of them is the index of a vertex appended while a later
  face \<open>g\<close> is processed. The offset starts at \<open>- 1\<close> and ends at the number of
  vertices minus one.
\<close>

theorem offset_correctness:
  assumes "list_all valid_face fs"
  shows "(\<forall>t \<in> set (triangles (tessellate_faces fs self)).
            0 \<le> t \<and> t < int (total_vertex_count (tessellate_faces fs self))) \<and>
         (\<forall>pre f post. fs = pre @ f # post \<longrightarrow>
            triangles (tessellate_faces (pre @ [f]) self) =
              triangles (tessellate_faces pre self) @ emitted pre f self \<and>
            (\<exists>later. triangles (tessellate_faces fs self) =
                      triangles (tessellate_faces (pre @ [f]) self) @ later) \<and>
            (\<forall>t \<in> set (emitted pre f self).
               int (total_vertex_count (tessellate_faces pre self)) \<le> t \<and>
               t < int (total_vertex_count (tessellate_faces (pre @ [f]) self)))) \<and>
         (\<forall>pre f mid g post. fs = pre @ f # mid @ g # post \<longrightarrow>
            (\<forall>t \<in> set (emitted pre f self).
               \<not> (int (total_vertex_count (tessellate_faces (pre @ f # mid) self)) \<le> t \<and>
                  t < int (total_vertex_count (tessellate_faces (pre @ f # mid @ [g]) self))))) \<and>
         snd (tessellate_loop fs (self\<lparr>vertices := [], triangles := [], normals := []\<rparr>, - 1)) =
           int (total_vertex_count (tessellate_faces fs self)) - 1"
proof (intro conjI allI impI)
  show "\<forall>t \<in> set (triangles (tessellate_faces fs self)).
            0 \<le> t \<and> t < int (total_vertex_count (tessellate_faces fs self))"
    using all_triangles_range [OF assms, of self] by (simp add: vertex_count_faces)
next
  fix pre f post
  assume split: "fs = pre @ f # post"
  then have vf: "valid_face f" using assms by simp
  show "triangles (tessellate_faces (pre @ [f]) self) =
              triangles (tessellate_faces pre self) @ emitted pre f self"
    using emitted_range [OF vf, of pre self] by simp
  show "\<exists>later. triangles (tessellate_faces fs self) =
                  triangles (tessellate_faces (pre @ [f]) self) @ later"
    using tessellate_loop_triangles
            [of post "tessellate_loop (pre @ [f])
                        (self\<lparr>vertices := [], triangles := [], normals := []\<rparr>, - 1)"]
    by (simp add: split tessellate_faces_def tessellate_loop_append)
  show "\<forall>t \<in> set (emitted pre f self).
               int (total_vertex_count (tessellate_faces pre self)) \<le> t \<and>
               t < int (total_vertex_count (tessellate_faces (pre @ [f]) self))"
    using emitted_range [OF vf, of pre self] by (auto simp: vertex_count_faces)
next
  fix pre f mid g post
  assume split: "fs = pre @ f # mid @ g # post"
  then have vf: "valid_face f" using assms by simp
  show "\<forall>t \<in> set (emitted pre f self).
               \<not> (int (total_vertex_count (tessellate_faces (pre @ f # mid) self)) \<le> t \<and>
                  t < int (total_vertex_count (tessellate_faces (pre @ f # mid @ [g]) self)))"
    using emitted_range [OF vf, of pre self] by (auto simp: vertex_count_faces)
next
  show "snd (tessellate_loop fs (self\<lparr>vertices := [], triangles := [], normals := []\<rparr>, - 1)) =
           int (total_vertex_count (tessellate_faces fs self)) - 1"
    by (simp add: tessellate_loop_snd vertex_count_faces)
qed

theorem offset_correctness_witness:
  "list_all valid_face [flat_face TopAbs_FORWARD True, flat_face TopAbs_REVERSED False] \<and>
   triangles (tessellate_faces [flat_face TopAbs_FORWARD True, flat_face TopAbs_REVERSED False] init)
     = [0, 1, 2, 3, 5, 4] \<and>
   total_vertex_count
     (tessellate_faces [flat_face TopAbs_FORWARD True, flat_face TopAbs_REVERSED False] init) = 6 \<and>
   emitted [] (flat_face TopAbs_FORWARD True) init = [0, 1, 2] \<and>
   total_vertex_count (tessellate_faces [flat_face TopAbs_FORWARD True] init) = 3"
proof -
  have v: "list_all valid_face [flat_face TopAbs_FORWARD True, flat_face TopAbs_REVERSED False]"
    by (simp add: valid_face_def flat_face_def one_triangle_def valid_triangle_def NbNodes_def)
  have t: "triangles (tessellate_faces [flat_face TopAbs_FORWARD True, flat_face TopAbs_REVERSED False] init)
     = [0, 1, 2, 3, 5, 4]"
    by (simp add: run_faces)
  have e: "emitted [] (flat_face TopAbs_FORWARD True) init = [0, 1, 2]"
    by (simp add: emitted_def run_faces)
  show ?thesis
    using offset_correctness [OF v, of init] v t e
    by (simp add: vertex_count_faces node_count_def flat_face_def one_triangle_def)
qed

subsection \<open>Winding\<close>

text \<open>
  Claim C3. For a face with a triangulation, each triangle \<open>(n0, n1, n2)\<close> read from
  the kernel is appended as \<open>n0, n2, n1\<close> (each plus the offset) when the face is
  reversed, and as \<open>n0, n1, n2\<close> (each plus the offset) for every other orientation.
\<close>

theorem reversed_face_winding:
  assumes "Triangulation f = Some poly"
  shows "triangles (fst (tessellate_face f (self, offset))) =
           triangles self @
           concat (map (\<lambda>t. case t of (n0, n1, n2) \<Rightarrow>
                     if Orientation f = TopAbs_REVERSED
                     then [n0 + offset, n2 + offset, n1 + offset]
                     else [n0 + offset, n1 + offset, n2 + offset]) (tris poly))"
  using assms by (rule tessellate_face_triangles)

theorem reversed_face_winding_witness:
  "triangles (tessellate_faces [flat_face TopAbs_REVERSED True] init) = [0, 2, 1] \<and>
   triangles (tessellate_faces [flat_face TopAbs_FORWARD True] init) = [0, 1, 2]"
  using reversed_face_winding [of "flat_face TopAbs_REVERSED True" "one_triangle True"
                    "init\<lparr>vertices := [], triangles := [], normals := []\<rparr>" "- 1"]
        reversed_face_winding [of "flat_face TopAbs_FORWARD True" "one_triangle True"
                    "init\<lparr>vertices := [], triangles := [], normals := []\<rparr>" "- 1"]
  by (simp add: tessellate_faces_def flat_face_def one_triangle_def init_def)


subsection \<open>Length of the normals buffer\<close>

lemma sum_uv_all:
  "list_all (\<lambda>f. triangulated f \<longrightarrow> exposes_uv f) fs \<Longrightarrow>
   sum_list (map uv_node_count fs) = sum_list (map node_count fs)"
  by (induction fs)
     (auto simp: triangulated_def exposes_uv_def uv_node_count_def node_count_def
           split: option.splits)

lemma sum_uv_none:
  "list_all (\<lambda>f. \<not> exposes_uv f) fs \<Longrightarrow> sum_list (map uv_node_count fs) = 0"
  by (induction fs) (auto simp: exposes_uv_def uv_node_count_def split: option.splits)

lemma sum_uv_le: "sum_list (map uv_node_count fs) \<le> sum_list (map node_count fs)"
  by (induction fs) (auto simp: uv_node_count_def node_count_def split: option.splits)

text \<open>
  Claim C2, as amended. The normals buffer holds three scalars for each node of the
  faces whose triangulation exposes UV nodes, and the vertex buffer three for each node of
  every triangulated face. So the normals are never longer than the vertices; they have
  the same length when every triangulated face exposes UV nodes, and length 0 when no
  face does.
\<close>

theorem normals_buffer_length:
  "length (normals (tessellate_faces fs self)) = 3 * sum_list (map uv_node_count fs) \<and>
   length (vertices (tessellate_faces fs self)) = 3 * sum_list (map node_count fs) \<and>
   length (normals (tessellate_faces fs self)) \<le> length (vertices (tessellate_faces fs self)) \<and>
   (list_all (\<lambda>f. triangulated f \<longrightarrow> exposes_uv f) fs \<longrightarrow>
      length (normals (tessellate_faces fs self)) = length (vertices (tessellate_faces fs self))) \<and>
   (list_all (\<lambda>f. \<not> exposes_uv f) fs \<longrightarrow> length (normals (tessellate_faces fs self)) = 0)"
proof -
  have n: "length (normals (tessellate_faces fs self)) = 3 * sum_list (map uv_node_count fs)"
    by (simp add: tessellate_faces_def tessellate_loop_normals_length)
  have v: "length (vertices (tessellate_faces fs self)) = 3 * sum_list (map node_count fs)"
    by (simp add: tessellate_faces_def tessellate_loop_vertices_length)
  show ?thesis
    using sum_uv_le [of fs] by (simp add: n v sum_uv_all sum_uv_none)
qed

theorem normals_buffer_length_witness:
  "list_all (\<lambda>f. triangulated f \<longrightarrow> exposes_uv f)
     [flat_face TopAbs_FORWARD True, flat_face TopAbs_INTERNAL True] \<and>
   length (normals (tessellate_faces [flat_face TopAbs_FORWARD True, flat_face TopAbs_INTERNAL True] init)) = 18 \<and>
   length (vertices (tessellate_faces [flat_face TopAbs_FORWARD True, flat_face TopAbs_INTERNAL True] init)) = 18 \<and>
   list_all (\<lambda>f. \<not> exposes_uv f) [flat_face TopAbs_FORWARD False] \<and>
   length (normals (tessellate_faces [flat_face TopAbs_FORWARD False] init)) = 0 \<and>
   length (vertices (tessellate_faces [flat_face TopAbs_FORWARD False] init)) = 9"
  using normals_buffer_length [of "[flat_face TopAbs_FORWARD True, flat_face TopAbs_INTERNAL True]" init]
        normals_buffer_length [of "[flat_face TopAbs_FORWARD False]" init]
  by (simp add: triangulated_def exposes_uv_def uv_node_count_def node_count_def
        flat_face_def one_triangle_def HasUVNodes_def)

text \<open>
  Claim C2 as stated fails: a face with UV nodes followed by one without gives 9
  scalars of normals for 18 of vertices.
\<close>

theorem normals_alignment_counterexample:
  "length (normals (tessellate_faces
             [flat_face TopAbs_FORWARD True, flat_face TopAbs_FORWARD False] init)) = 9 \<and>
   length (vertices (tessellate_faces
             [flat_face TopAbs_FORWARD True, flat_face TopAbs_FORWARD False] init)) = 18 \<and>
   \<not> (length (normals (tessellate_faces
                [flat_face TopAbs_FORWARD True, flat_face TopAbs_FORWARD False] init)) = 0 \<or>
      length (normals (tessellate_faces
                [flat_face TopAbs_FORWARD True, flat_face TopAbs_FORWARD False] init)) =
      length (vertices (tessellate_faces
                [flat_face TopAbs_FORWARD True, flat_face TopAbs_FORWARD False] init)))"
  by (simp add: run_faces)

subsection \<open>The curve discretizer\<close>

text \<open>
  Claim C9. When the sampler is not done, \<^verbatim>\<open>discretize_edge\<close> raises the
  assertion error. Otherwise it returns, for the \<open>N\<close> sampled points, \<open>N - 1\<close>
  segments (none for \<open>N = 0\<close>), the \<open>i\<close>-th joining the points \<open>i\<close> and
  \<open>i + 1\<close> of the curve.
\<close>

theorem discretize_edge_segments:
  "(\<not> IsDone (Initialize c d (FirstParameter c) (LastParameter c)) \<longrightarrow>
      discretize_edge Initialize c d = Inl (AssertionError ''Discretizer not done.'')) \<and>
   (IsDone (Initialize c d (FirstParameter c) (LastParameter c)) \<longrightarrow>
      (\<exists>segs. discretize_edge Initialize c d = Inr segs \<and>
         length segs = length (parameters (Initialize c d (FirstParameter c) (LastParameter c))) - 1 \<and>
         (\<forall>i < length segs.
            segs ! i =
              (Value c (parameters (Initialize c d (FirstParameter c) (LastParameter c)) ! i),
               Value c (parameters (Initialize c d (FirstParameter c) (LastParameter c)) ! (i + 1))))))"
proof -
  let ?D = "Initialize c d (FirstParameter c) (LastParameter c)"
  let ?ps = "parameters ?D"
  let ?points = "map (\<lambda>i. Value c (Parameter ?D i)) (py_range 1 (NbPoints ?D + 1))"
  have pts: "?points = map (Value c) ?ps"
    using map_one_based [of "Value c" ?ps] by (simp add: Parameter_def NbPoints_def)
  have rng: "py_range 0 (int (length ?ps) - 1) = map int [0..<length ?ps - 1]"
  proof (cases "length ?ps")
    case 0
    then show ?thesis by (simp add: py_range_def)
  next
    case (Suc n)
    then show ?thesis using py_range_shift [of 0 n] by simp
  qed
  have segs: "map (\<lambda>i. (?points ! nat i, ?points ! nat (i + 1))) (py_range 0 (int (length ?points) - 1))
        = map (\<lambda>k. (Value c (?ps ! k), Value c (?ps ! (k + 1)))) [0..<length ?ps - 1]"
    by (simp add: pts rng comp_def nat_add_distrib)
  have not_done: "\<not> IsDone ?D \<Longrightarrow>
      discretize_edge Initialize c d = Inl (AssertionError ''Discretizer not done.'')"
    by (simp add: discretize_edge_def Let_def)
  have is_done: "IsDone ?D \<Longrightarrow> discretize_edge Initialize c d =
      Inr (map (\<lambda>k. (Value c (?ps ! k), Value c (?ps ! (k + 1)))) [0..<length ?ps - 1])"
    unfolding discretize_edge_def Let_def segs by simp
  show ?thesis
    using not_done is_done by auto
qed

theorem discretize_edge_segments_witness:
  "discretize_edge three_point_sampler line_curve (1 / 10) =
     Inr [((0, 0, 0), (1 / 2, 0, 0)), ((1 / 2, 0, 0), (1, 0, 0))] \<and>
   discretize_edge failing_sampler line_curve (1 / 10) =
     Inl (AssertionError ''Discretizer not done.'')"
  using discretize_edge_segments [of three_point_sampler line_curve "1 / 10"]
        discretize_edge_segments [of failing_sampler line_curve "1 / 10"]
  by (simp add: discretize_edge_def three_point_sampler_def failing_sampler_def line_curve_def
        py_range_def upto_rec1 NbPoints_def Parameter_def Let_def)

subsection \<open>Edge segments\<close>

lemma map_from_lower:
  "map (\<lambda>j. g (xs ! nat (j - a))) (py_range a (a + int (length xs))) = map g xs"
proof -
  have "map (\<lambda>j. g (xs ! nat (j - a))) (py_range a (a + int (length xs)))
        = map (\<lambda>k. g (xs ! k)) [0..<length xs]"
    by (simp add: py_range_shift comp_def)
  also have "\<dots> = map g (map (\<lambda>k. xs ! k) [0..<length xs])" by (simp add: comp_def)
  also have "\<dots> = map g xs" by (simp only: map_nth)
  finally show ?thesis .
qed

lemma edge_loop_valid:
  assumes "\<forall>j \<in> set js. 1 \<le> index j \<and> index j \<le> NbNodes t"
  shows "edge_loop (Some t) transf index js v1 self =
           Inr (self\<lparr>edges := edges self @
                  (let pts = map (\<lambda>n. transf (Node t n)) (map index js)
                   in case v1 of None \<Rightarrow> zip pts (tl pts) | Some v \<Rightarrow> zip (v # pts) pts)\<rparr>)"
  using assms
proof (induction js arbitrary: v1 self)
  case Nil
  then show ?case by (simp split: option.splits)
next
  case (Cons j js)
  then show ?case by (simp add: Let_def split: option.splits)
qed

lemma polygon_access:
  "(case poly of
      PolyNode ns \<Rightarrow> (py_range 1 (int (length ns) + 1), \<lambda>j. ns ! nat (j - 1))
    | PolyArray lower vs \<Rightarrow>
        (py_range lower (lower + int (length vs) - 1 + 1), \<lambda>j. vs ! nat (j - lower))) = (nrange, index)
   \<Longrightarrow> map index nrange = polygon_nodes poly"
proof (cases poly)
  case (PolyNode ns)
  assume "(case poly of
      PolyNode ns \<Rightarrow> (py_range 1 (int (length ns) + 1), \<lambda>j. ns ! nat (j - 1))
    | PolyArray lower vs \<Rightarrow>
        (py_range lower (lower + int (length vs) - 1 + 1), \<lambda>j. vs ! nat (j - lower))) = (nrange, index)"
  with PolyNode have "nrange = py_range 1 (1 + int (length ns))" "index = (\<lambda>j. ns ! nat (j - 1))"
    by (auto simp: add.commute)
  then show ?thesis using map_from_lower [of "\<lambda>x. x" ns 1] PolyNode by simp
next
  case (PolyArray lower vs)
  assume "(case poly of
      PolyNode ns \<Rightarrow> (py_range 1 (int (length ns) + 1), \<lambda>j. ns ! nat (j - 1))
    | PolyArray lower vs \<Rightarrow>
        (py_range lower (lower + int (length vs) - 1 + 1), \<lambda>j. vs ! nat (j - lower))) = (nrange, index)"
  with PolyArray have "nrange = py_range lower (lower + int (length vs))"
    "index = (\<lambda>j. vs ! nat (j - lower))"
    by auto
  then show ?thesis using map_from_lower [of "\<lambda>x. x" vs lower] PolyArray by simp
qed

lemma compute_edge_valid:
  assumes fl: "face_list e = first # rest"
      and po: "PolygonOnTriangulation e = Some poly"
      and tr: "Triangulation first = Some t"
      and ok: "list_all (\<lambda>n. 1 \<le> n \<and> n \<le> NbNodes t) (polygon_nodes poly)"
  shows "compute_edge e self =
           Inr (self\<lparr>edges := edges self @
                  zip (map (\<lambda>n. Transformation first (Node t n)) (polygon_nodes poly))
                      (tl (map (\<lambda>n. Transformation first (Node t n)) (polygon_nodes poly)))\<rparr>)"
proof -
  obtain nrange index where acc: "(case poly of
      PolyNode ns \<Rightarrow> (py_range 1 (int (length ns) + 1), \<lambda>j. ns ! nat (j - 1))
    | PolyArray lower vs \<Rightarrow>
        (py_range lower (lower + int (length vs) - 1 + 1), \<lambda>j. vs ! nat (j - lower))) = (nrange, index)"
    by (cases "(case poly of
      PolyNode ns \<Rightarrow> (py_range 1 (int (length ns) + 1), \<lambda>j. ns ! nat (j - 1))
    | PolyArray lower vs \<Rightarrow>
        (py_range lower (lower + int (length vs) - 1 + 1), \<lambda>j. vs ! nat (j - lower)))") auto
  have m: "map index nrange = polygon_nodes poly" using acc by (rule polygon_access)
  have "\<forall>n \<in> set (map index nrange). 1 \<le> n \<and> n \<le> NbNodes t"
    using ok by (simp only: m list_all_iff)
  then have v: "\<forall>j \<in> set nrange. 1 \<le> index j \<and> index j \<le> NbNodes t" by simp
  have "compute_edge e self = edge_loop (Some t) (Transformation first) index nrange None self"
    using fl po tr acc by (simp add: compute_edge_def Let_def)
  also have "\<dots> = Inr (self\<lparr>edges := edges self @
                  zip (map (\<lambda>n. Transformation first (Node t n)) (map index nrange))
                      (tl (map (\<lambda>n. Transformation first (Node t n)) (map index nrange)))\<rparr>)"
    using edge_loop_valid [OF v, of "Transformation first" None self] by (simp add: Let_def)
  finally show ?thesis by (simp only: m)
qed

lemma compute_edge_cases:
  "(face_list e = [] \<longrightarrow> compute_edge e self = Inr self) \<and>
   (PolygonOnTriangulation e = None \<longrightarrow> compute_edge e self = Inr self) \<and>
   (\<forall>first rest poly t.
      face_list e = first # rest \<and> PolygonOnTriangulation e = Some poly \<and>
      Triangulation first = Some t \<and>
      list_all (\<lambda>n. 1 \<le> n \<and> n \<le> NbNodes t) (polygon_nodes poly) \<longrightarrow>
      (\<exists>segs. compute_edge e self = Inr (self\<lparr>edges := edges self @ segs\<rparr>) \<and>
         length segs = length (polygon_nodes poly) - 1 \<and>
         (\<forall>i < length segs.
            segs ! i = (Transformation first (Node t (polygon_nodes poly ! i)),
                        Transformation first (Node t (polygon_nodes poly ! (i + 1)))))))"
proof (intro conjI allI impI)
  show "compute_edge e self = Inr self" if "face_list e = []"
    using that by (simp add: compute_edge_def)
  show "compute_edge e self = Inr self" if "PolygonOnTriangulation e = None"
    using that by (simp add: compute_edge_def Let_def split: list.splits)
next
  fix first rest poly t
  assume a: "face_list e = first # rest \<and> PolygonOnTriangulation e = Some poly \<and>
      Triangulation first = Some t \<and>
      list_all (\<lambda>n. 1 \<le> n \<and> n \<le> NbNodes t) (polygon_nodes poly)"
  let ?pts = "map (\<lambda>n. Transformation first (Node t n)) (polygon_nodes poly)"
  have c: "compute_edge e self = Inr (self\<lparr>edges := edges self @ zip ?pts (tl ?pts)\<rparr>)"
    using a compute_edge_valid by blast
  have l: "length (zip ?pts (tl ?pts)) = length (polygon_nodes poly) - 1" by simp
  have n: "\<forall>i < length (zip ?pts (tl ?pts)).
             zip ?pts (tl ?pts) ! i =
               (Transformation first (Node t (polygon_nodes poly ! i)),
                Transformation first (Node t (polygon_nodes poly ! (i + 1))))"
    by (simp add: nth_tl)
  show "\<exists>segs. compute_edge e self = Inr (self\<lparr>edges := edges self @ segs\<rparr>) \<and>
         length segs = length (polygon_nodes poly) - 1 \<and>
         (\<forall>i < length segs.
            segs ! i = (Transformation first (Node t (polygon_nodes poly ! i)),
                        Transformation first (Node t (polygon_nodes poly ! (i + 1)))))"
    using c l n by blast
qed

lemma compute_edge_result:
  assumes "valid_edge e"
  shows "compute_edge e self = Inr (self\<lparr>edges := edges self @ edge_segments e\<rparr>)"
proof (cases "face_list e")
  case Nil
  then show ?thesis by (simp add: compute_edge_def edge_segments_def)
next
  case (Cons first rest)
  show ?thesis
  proof (cases "PolygonOnTriangulation e")
    case None
    with Cons show ?thesis by (simp add: compute_edge_def edge_segments_def)
  next
    case (Some poly)
    show ?thesis
    proof (cases "Triangulation first")
      case None
      with assms Cons Some have "polygon_nodes poly = []" by (simp add: valid_edge_def)
      with Cons Some None show ?thesis
        by (cases poly) (simp_all add: compute_edge_def edge_segments_def py_range_def)
    next
      fix t
      assume tri: "Triangulation first = Some t"
      from assms Cons Some tri
      have ok: "list_all (\<lambda>n. 1 \<le> n \<and> n \<le> NbNodes t) (polygon_nodes poly)"
        by (simp add: valid_edge_def)
      show ?thesis
        using compute_edge_valid [OF Cons Some tri ok, of self] Cons Some tri
        by (simp add: edge_segments_def Let_def)
    qed
  qed
qed

lemma compute_edges_loop_result:
  "list_all valid_edge es \<Longrightarrow>
   compute_edges_loop es self = Inr (self\<lparr>edges := edges self @ concat (map edge_segments es)\<rparr>)"
proof (induction es arbitrary: self)
  case Nil
  then show ?case by simp
next
  case (Cons e es)
  then show ?case by (simp add: compute_edge_result)
qed

lemma edge_segments_nth:
  assumes "face_list e = first # rest" and "PolygonOnTriangulation e = Some poly"
      and "Triangulation first = Some t"
  shows "length (edge_segments e) = length (polygon_nodes poly) - 1 \<and>
         (\<forall>i < length (edge_segments e).
            edge_segments e ! i = (Transformation first (Node t (polygon_nodes poly ! i)),
                                   Transformation first (Node t (polygon_nodes poly ! (i + 1)))))"
  using assms by (simp add: edge_segments_def Let_def nth_tl)

text \<open>
  Claim C6. On a shape whose edge polygons refer to nodes of the triangulation of their
  first adjacent face, the edge extractor \<^verbatim>\<open>compute_edges\<close> raises nothing and
  appends to the edges buffer, edge after edge in the order of the edge map, the segments
  of each edge. An edge that no face shares, or that has no polygon on the triangulation,
  has no segments and leaves the tessellator as it is. An edge whose polygon holds
  \<open>N\<close> node indices has exactly \<open>N - 1\<close> segments (none for \<open>N \<le> 1\<close>), the
  \<open>i\<close>-th joining the transformed nodes \<open>i\<close> and \<open>i + 1\<close> of the polygon; each single
  step of the loop appends exactly those.
\<close>

theorem edge_extractor_segments:
  assumes "shape self = Some sh" and "list_all valid_edge (edge_map sh)"
  shows "compute_edges self =
           Inr (self\<lparr>edges := edges self @ concat (map edge_segments (edge_map sh))\<rparr>) \<and>
         (\<exists>r. compute_edges self = Inr r \<and>
            length (edges r) =
              length (edges self) + sum_list (map (\<lambda>e. length (edge_segments e)) (edge_map sh))) \<and>
         (\<forall>e s. face_list e = [] \<or> PolygonOnTriangulation e = None \<longrightarrow>
            edge_segments e = [] \<and> compute_edge e s = Inr s) \<and>
         (\<forall>e first rest poly t.
            face_list e = first # rest \<and> PolygonOnTriangulation e = Some poly \<and>
            Triangulation first = Some t \<longrightarrow>
            length (edge_segments e) = length (polygon_nodes poly) - 1 \<and>
            (\<forall>i < length (edge_segments e).
               edge_segments e ! i =
                 (Transformation first (Node t (polygon_nodes poly ! i)),
                  Transformation first (Node t (polygon_nodes poly ! (i + 1)))))) \<and>
         (\<forall>e s. valid_edge e \<longrightarrow>
            compute_edge e s = Inr (s\<lparr>edges := edges s @ edge_segments e\<rparr>))"
proof (intro conjI allI impI)
  show whole: "compute_edges self =
           Inr (self\<lparr>edges := edges self @ concat (map edge_segments (edge_map sh))\<rparr>)"
    using assms by (simp add: compute_edges_def compute_edges_loop_result)
  have "length (concat (map edge_segments es)) = sum_list (map (\<lambda>e. length (edge_segments e)) es)"
    for es
    by (induction es) simp_all
  then show "\<exists>r. compute_edges self = Inr r \<and>
            length (edges r) =
              length (edges self) + sum_list (map (\<lambda>e. length (edge_segments e)) (edge_map sh))"
    by (simp add: whole)
next
  fix e :: edge and s :: tessellator
  assume none: "face_list e = [] \<or> PolygonOnTriangulation e = None"
  then show "edge_segments e = []"
    by (auto simp: edge_segments_def split: list.splits)
  from none show "compute_edge e s = Inr s"
    using compute_edge_cases [of e s] by blast
next
  fix e :: edge and first rest poly t
  assume a: "face_list e = first # rest \<and> PolygonOnTriangulation e = Some poly \<and>
            Triangulation first = Some t"
  then have n: "length (edge_segments e) = length (polygon_nodes poly) - 1 \<and>
         (\<forall>i < length (edge_segments e).
            edge_segments e ! i = (Transformation first (Node t (polygon_nodes poly ! i)),
                                   Transformation first (Node t (polygon_nodes poly ! (i + 1)))))"
    using edge_segments_nth [of e first rest poly t] by blast
  from n show "length (edge_segments e) = length (polygon_nodes poly) - 1" by blast
  show "edge_segments e ! i =
                 (Transformation first (Node t (polygon_nodes poly ! i)),
                  Transformation first (Node t (polygon_nodes poly ! (i + 1))))"
    if "i < length (edge_segments e)" for i
    using n that by blast
next
  fix e :: edge and s :: tessellator
  assume "valid_edge e"
  then show "compute_edge e s = Inr (s\<lparr>edges := edges s @ edge_segments e\<rparr>)"
    by (rule compute_edge_result)
qed

lemmas run_edges = compute_edges_def compute_edge_def border_edge_def free_edge_def frame_def
  flat_face_def one_triangle_def init_def py_range_def upto_rec1 NbNodes_def Node_def Let_def

theorem edge_extractor_segments_witness:
  "list_all valid_edge (edge_map frame) \<and>
   compute_edges (init\<lparr>shape := Some frame\<rparr>) =
     Inr (init\<lparr>shape := Some frame,
               edges := [((0, 0, 0), (1, 0, 0)), ((1, 0, 0), (0, 1, 0)),
                         ((0, 1, 0), (0, 0, 0))]\<rparr>) \<and>
   map edge_segments (edge_map frame) =
     [[((0, 0, 0), (1, 0, 0)), ((1, 0, 0), (0, 1, 0))], [], [], [((0, 1, 0), (0, 0, 0))], []] \<and>
   compute_edge (border_edge (Some (PolyNode [1, 2, 3]))) init =
     Inr (init\<lparr>edges := [((0, 0, 0), (1, 0, 0)), ((1, 0, 0), (0, 1, 0))]\<rparr>) \<and>
   compute_edge (border_edge (Some (PolyArray 5 [3, 1]))) init =
     Inr (init\<lparr>edges := [((0, 1, 0), (0, 0, 0))]\<rparr>) \<and>
   compute_edge (border_edge (Some (PolyNode [2]))) init = Inr init \<and>
   compute_edge (border_edge None) init = Inr init \<and>
   compute_edge free_edge init = Inr init"
proof -
  have sh: "shape (init\<lparr>shape := Some frame\<rparr>) = Some frame" by simp
  have v: "list_all valid_edge (edge_map frame)"
    by (simp add: valid_edge_def frame_def border_edge_def free_edge_def flat_face_def
          one_triangle_def NbNodes_def)
  have segs: "map edge_segments (edge_map frame) =
     [[((0, 0, 0), (1, 0, 0)), ((1, 0, 0), (0, 1, 0))], [], [], [((0, 1, 0), (0, 0, 0))], []]"
    by (simp add: edge_segments_def frame_def border_edge_def free_edge_def flat_face_def
          one_triangle_def Node_def Let_def)
  note th = edge_extractor_segments [OF sh v]
  from th have whole: "compute_edges (init\<lparr>shape := Some frame\<rparr>) =
      Inr (init\<lparr>shape := Some frame,
                edges := edges (init\<lparr>shape := Some frame\<rparr>)
                         @ concat (map edge_segments (edge_map frame))\<rparr>)"
    by (rule conjunct1)
  have single: "compute_edge (border_edge (Some (PolyNode [1, 2, 3]))) init =
     Inr (init\<lparr>edges := [((0, 0, 0), (1, 0, 0)), ((1, 0, 0), (0, 1, 0))]\<rparr>) \<and>
   compute_edge (border_edge (Some (PolyArray 5 [3, 1]))) init =
     Inr (init\<lparr>edges := [((0, 1, 0), (0, 0, 0))]\<rparr>) \<and>
   compute_edge (border_edge (Some (PolyNode [2]))) init = Inr init \<and>
   compute_edge (border_edge None) init = Inr init \<and>
   compute_edge free_edge init = Inr init"
    by (simp add: run_edges)
  show ?thesis
    using v whole segs single by (simp add: init_def)
qed

subsection \<open>The cached function\<close>

lemma popitems_ok: "sz \<le> maxsize \<Longrightarrow> \<exists>c'. popitems sz c = Inr c'"
  by (induction c) auto

lemma map_of_moved: "map_of (filter (\<lambda>e. fst e \<noteq> k) c @ [(k, x)]) k = Some x"
proof -
  have "map_of (filter (\<lambda>e. fst e \<noteq> k) c) k = None"
    by (induction c) auto
  then show ?thesis by (simp add: map_add_def)
qed

lemma cache_getitem_moved:
  "cache_getitem (filter (\<lambda>e. fst e \<noteq> k) c @ [(k, v, sz)]) k =
     Some (v, filter (\<lambda>e. fst e \<noteq> k) c @ [(k, v, sz)])"
  using map_of_moved [of k c "(v, sz)"] by (simp add: cache_getitem_def del: map_of_append)

lemma cache_getitem_hit:
  "cache_getitem c k = Some (v, c') \<Longrightarrow> \<exists>c''. cache_getitem c' k = Some (v, c'')"
proof -
  assume "cache_getitem c k = Some (v, c')"
  then obtain sz where "c' = filter (\<lambda>e. fst e \<noteq> k) c @ [(k, v, sz)]"
    by (auto simp: cache_getitem_def split: option.splits)
  then show ?thesis by (simp only: cache_getitem_moved) blast
qed

lemma cache_setitem_result:
  "cache_setitem sizeof c k v =
     (if sizeof v > maxsize then Inl (ValueError ''value too large'')
      else Inr (filter (\<lambda>e. fst e \<noteq> k)
                  (case map_of c k of
                     None \<Rightarrow> projr (popitems (sizeof v) c)
                   | Some (old, oldsz) \<Rightarrow>
                       if oldsz < sizeof v then projr (popitems (sizeof v) c) else c)
                @ [(k, v, sizeof v)]))"
proof (cases "sizeof v > maxsize")
  case True
  then show ?thesis by (simp add: cache_setitem_def)
next
  case False
  then obtain c' where "popitems (sizeof v) c = Inr c'"
    using popitems_ok [of "sizeof v" c] by auto
  with False show ?thesis
    by (simp add: cache_setitem_def Let_def split: option.splits)
qed

lemma tessellate_miss:
  assumes "tessellate_key how shapes quality angular_tolerance c_faces c_edges debug progress = Inr key"
      and "cache_getitem cache key = None"
  shows "fst (tessellate getsizeof k how cache shapes quality angular_tolerance c_faces c_edges debug progress)
         = tessellate_body k shapes quality angular_tolerance c_faces c_edges debug progress"
  using assms
  by (simp add: tessellate_def cache_setitem_result split: prod.splits sum.splits)

lemma compute_raises:
  assumes "BRepMesh_IncrementalMesh k (Clean_s k sh) quality False angular_tolerance
             (number_solids sh > 1) = Inl err"
  shows "fst (compute k self sh quality angular_tolerance c_faces c_edges debug progress) = Inl err"
  using assms by (simp add: compute_def Let_def)

lemma tessellate_body_compute:
  "fst (tessellate_body k (s # rest) quality angular_tolerance c_faces c_edges debug progress) =
     (case fst (compute k init (compound_of k (s # rest)) quality angular_tolerance
                  c_faces c_edges debug progress) of
        Inl err \<Rightarrow> Inl err
      | Inr tess \<Rightarrow> Inr \<lparr>mr_vertices = get_vertices tess, mr_triangles = get_triangles tess,
                          mr_normals = get_normals tess, mr_edges = get_edges tess\<rparr>)"
  by (simp add: tessellate_body_def compound_of_def Let_def split: prod.splits sum.splits)

lemma tessellate_body_raises:
  assumes "BRepMesh_IncrementalMesh k (Clean_s k (compound_of k (s # rest))) quality False
             angular_tolerance (number_solids (compound_of k (s # rest)) > 1) = Inl err"
  shows "fst (tessellate_body k (s # rest) quality angular_tolerance c_faces c_edges debug progress)
         = Inl err"
  by (simp only: tessellate_body_compute compute_raises [OF assms] sum.case)

lemma compute_flags:
  "fst (compute k self sh quality angular_tolerance c_faces c_edges debug progress) =
   fst (compute k self sh quality angular_tolerance c_faces c_edges False False)"
  by (simp add: compute_def Let_def split: sum.splits prod.splits)

lemma tessellate_body_flags:
  "fst (tessellate_body k shapes quality angular_tolerance c_faces c_edges debug progress) =
   fst (tessellate_body k shapes quality angular_tolerance c_faces c_edges False False)"
proof (cases shapes)
  case Nil
  then show ?thesis by (simp add: tessellate_body_def)
next
  case (Cons s rest)
  show ?thesis
    unfolding Cons tessellate_body_compute
    using compute_flags [of k init "compound_of k (s # rest)" quality angular_tolerance
                            c_faces c_edges debug progress]
    by simp
qed

lemma tessellate_key_flags:
  "tessellate_key how shapes quality angular_tolerance c_faces c_edges debug progress =
   tessellate_key how shapes quality angular_tolerance c_faces c_edges False False"
  by (simp add: tessellate_key_def make_key_def split: passing.splits)

lemma tessellate_flags:
  "fst (fst (tessellate getsizeof k how cache shapes quality angular_tolerance c_faces c_edges d1 p1)) =
   fst (fst (tessellate getsizeof k how cache shapes quality angular_tolerance c_faces c_edges d2 p2)) \<and>
   snd (tessellate getsizeof k how cache shapes quality angular_tolerance c_faces c_edges d1 p1) =
   snd (tessellate getsizeof k how cache shapes quality angular_tolerance c_faces c_edges d2 p2)"
proof -
  obtain r out1 where b1:
    "tessellate_body k shapes quality angular_tolerance c_faces c_edges d1 p1 = (r, out1)"
    by (cases "tessellate_body k shapes quality angular_tolerance c_faces c_edges d1 p1")
  obtain r' out2 where b2:
    "tessellate_body k shapes quality angular_tolerance c_faces c_edges d2 p2 = (r', out2)"
    by (cases "tessellate_body k shapes quality angular_tolerance c_faces c_edges d2 p2")
  have "r' = r"
    using tessellate_body_flags [of k shapes quality angular_tolerance c_faces c_edges d1 p1]
          tessellate_body_flags [of k shapes quality angular_tolerance c_faces c_edges d2 p2]
    by (simp add: b1 b2)
  with b2 have b2': "tessellate_body k shapes quality angular_tolerance c_faces c_edges d2 p2 = (r, out2)"
    by simp
  have key: "tessellate_key how shapes quality angular_tolerance c_faces c_edges d1 p1 =
             tessellate_key how shapes quality angular_tolerance c_faces c_edges d2 p2"
    by (simp add: tessellate_key_def make_key_def split: passing.splits)
  show ?thesis
    by (simp add: tessellate_def key b1 b2'
          split: sum.splits option.splits prod.splits py_error.splits)
qed


lemma cache_setitem_fits:
  assumes "sizeof v \<le> maxsize"
  shows "\<exists>c'. cache_setitem sizeof c k v = Inr (filter (\<lambda>e. fst e \<noteq> k) c' @ [(k, v, sizeof v)])"
  using assms by (auto simp: cache_setitem_result)

lemma tessellate_hit:
  assumes "tessellate_key how shapes quality angular_tolerance c_faces c_edges debug progress = Inr key"
      and "cache_getitem cache key = Some (v, cache')"
  shows "tessellate getsizeof k how cache shapes quality angular_tolerance c_faces c_edges debug progress
         = ((Inr v, []), cache')"
  using assms by (simp add: tessellate_def)

lemma tessellate_stores:
  assumes key: "tessellate_key how shapes quality angular_tolerance c_faces c_edges debug progress = Inr key"
      and call: "tessellate getsizeof k how c0 shapes quality angular_tolerance c_faces c_edges debug progress
                 = ((Inr r, out), c1)"
      and fits: "get_size getsizeof (result_obj r) \<le> maxsize"
  shows "\<exists>c2. cache_getitem c1 key = Some (r, c2)"
proof (cases "cache_getitem c0 key")
  case (Some hit)
  obtain v c0' where hit: "hit = (v, c0')" by (cases hit)
  have "tessellate getsizeof k how c0 shapes quality angular_tolerance c_faces c_edges debug progress
        = ((Inr v, []), c0')"
    using key Some hit by (simp add: tessellate_hit)
  with call have "v = r" "c0' = c1" by simp_all
  with Some hit show ?thesis using cache_getitem_hit [of c0 key r c1] by simp
next
  case None
  have body: "tessellate_body k shapes quality angular_tolerance c_faces c_edges debug progress = (Inr r, out)"
    using tessellate_miss [OF key None, of getsizeof k] call by simp
  obtain c' where set: "cache_setitem (\<lambda>r. get_size getsizeof (result_obj r)) c0 key r =
      Inr (filter (\<lambda>e. fst e \<noteq> key) c' @ [(key, r, get_size getsizeof (result_obj r))])"
    using cache_setitem_fits [of "\<lambda>r. get_size getsizeof (result_obj r)" r c0 key] fits by auto
  have "c1 = filter (\<lambda>e. fst e \<noteq> key) c' @ [(key, r, get_size getsizeof (result_obj r))]"
    using call key None body set by (simp add: tessellate_def)
  then show ?thesis by (simp only: cache_getitem_moved) blast
qed

lemmas run_tessellate = tessellate_def tessellate_key_def make_key_def tessellate_body_def
  compute_def tessellate_method_def compute_edges_def number_solids_def Timer_def
  cache_getitem_def cache_setitem_def maxsize_def currsize_def result_obj_def header64_def
  get_vertices_def get_triangles_def get_normals_def get_edges_def
  panel_def working_kernel_def failing_kernel_def panel_mesh_def compound_of_def
  compute_edge_def border_edge_def upto_rec1 tessellate_faces_def tessellate_face_def
  flat_face_def one_triangle_def init_def py_range_def NbNodes_def NbTriangles_def Triangle_def
  Node_def HasUVNodes_def UVNode_def Let_def normal_coords_def Coord_def SquareMagnitude_def
  Normalize_def Reverse_def

text \<open>
  Claim C4. The key of a call is made of the structural hash of the first shape of the
  list and of the quality, the angular tolerance and the two compute flags: two calls
  whose first shapes have equal hashes and whose other key parameters are equal (passed
  the same way) have equal keys, whatever the rest of the lists and the debug and
  progress flags. So when the first call returned a result that the cache took (its
  accounted size is within the bound of the cache), the second call returns that same
  result from the cache, printing nothing and whatever the kernel would do; and
  whenever the cache holds a result under the key of the first call, the second call
  returns it.
\<close>

theorem first_shape_key:
  assumes "HashCode s1 2147483647 = HashCode s2 2147483647"
  shows "make_key (s1 # rest1) quality angular_tolerance c_edges c_faces d1 p1 =
         make_key (s2 # rest2) quality angular_tolerance c_edges c_faces d2 p2 \<and>
         tessellate_key how (s1 # rest1) quality angular_tolerance c_faces c_edges d1 p1 =
         tessellate_key how (s2 # rest2) quality angular_tolerance c_faces c_edges d2 p2 \<and>
         (\<forall>r out c1.
            tessellate getsizeof k1 how c0 (s1 # rest1) quality angular_tolerance c_faces c_edges d1 p1
              = ((Inr r, out), c1) \<and>
            get_size getsizeof (result_obj r) \<le> maxsize \<longrightarrow>
            (\<exists>c2. tessellate getsizeof k2 how c1 (s2 # rest2) quality angular_tolerance
                     c_faces c_edges d2 p2 = ((Inr r, []), c2))) \<and>
         (\<forall>key c v c'.
            tessellate_key how (s1 # rest1) quality angular_tolerance c_faces c_edges d1 p1 = Inr key \<and>
            cache_getitem c key = Some (v, c') \<longrightarrow>
            tessellate getsizeof k2 how c (s2 # rest2) quality angular_tolerance
              c_faces c_edges d2 p2 = ((Inr v, []), c'))"
proof (intro conjI allI impI)
  show "make_key (s1 # rest1) quality angular_tolerance c_edges c_faces d1 p1 =
        make_key (s2 # rest2) quality angular_tolerance c_edges c_faces d2 p2"
    using assms by (simp add: make_key_def)
  show keys: "tessellate_key how (s1 # rest1) quality angular_tolerance c_faces c_edges d1 p1 =
         tessellate_key how (s2 # rest2) quality angular_tolerance c_faces c_edges d2 p2"
    using assms by (simp add: tessellate_key_def make_key_def split: passing.splits)
  fix r out c1
  assume first: "tessellate getsizeof k1 how c0 (s1 # rest1) quality angular_tolerance c_faces c_edges d1 p1
              = ((Inr r, out), c1) \<and>
            get_size getsizeof (result_obj r) \<le> maxsize"
  obtain key where k1: "tessellate_key how (s1 # rest1) quality angular_tolerance c_faces c_edges d1 p1 = Inr key"
    using first
    by (cases "tessellate_key how (s1 # rest1) quality angular_tolerance c_faces c_edges d1 p1")
       (simp_all add: tessellate_def)
  then have k2: "tessellate_key how (s2 # rest2) quality angular_tolerance c_faces c_edges d2 p2 = Inr key"
    using keys by simp
  obtain c2 where "cache_getitem c1 key = Some (r, c2)"
    using tessellate_stores [OF k1, of getsizeof k1 c0 r out c1] first by blast
  then have "tessellate getsizeof k2 how c1 (s2 # rest2) quality angular_tolerance
                     c_faces c_edges d2 p2 = ((Inr r, []), c2)"
    using k2 by (simp add: tessellate_hit)
  then show "\<exists>c2. tessellate getsizeof k2 how c1 (s2 # rest2) quality angular_tolerance
                     c_faces c_edges d2 p2 = ((Inr r, []), c2)" by blast
next
  fix key c v c'
  assume held: "tessellate_key how (s1 # rest1) quality angular_tolerance c_faces c_edges d1 p1 = Inr key \<and>
            cache_getitem c key = Some (v, c')"
  have "tessellate_key how (s2 # rest2) quality angular_tolerance c_faces c_edges d2 p2 = Inr key"
    using assms held by (simp add: tessellate_key_def make_key_def split: passing.splits)
  then show "tessellate getsizeof k2 how c (s2 # rest2) quality angular_tolerance
              c_faces c_edges d2 p2 = ((Inr v, []), c')"
    using held by (simp add: tessellate_hit)
qed

theorem first_shape_key_witness:
  "HashCode (panel 7) 2147483647 = HashCode ((panel 7)\<lparr>faces := []\<rparr>) 2147483647 \<and>
   tessellate header64 working_kernel Positional [] [panel 7] (1 / 10) (1 / 5) True True False True
     = ((Inr panel_mesh, [''t'']), [((7, 1 / 10, 1 / 5, True, True), panel_mesh, 457)]) \<and>
   tessellate header64 failing_kernel Positional
       [((7, 1 / 10, 1 / 5, True, True), panel_mesh, 457)]
       [(panel 7)\<lparr>faces := []\<rparr>, panel 8] (1 / 10) (1 / 5) True True True False
     = ((Inr panel_mesh, []), [((7, 1 / 10, 1 / 5, True, True), panel_mesh, 457)])"
proof -
  have h: "HashCode (panel 7) 2147483647 = HashCode ((panel 7)\<lparr>faces := []\<rparr>) 2147483647"
    by (simp add: panel_def)
  have first: "tessellate header64 working_kernel Positional [] [panel 7] (1 / 10) (1 / 5)
                 True True False True
               = ((Inr panel_mesh, [''t'']), [((7, 1 / 10, 1 / 5, True, True), panel_mesh, 457)])"
    by (simp add: run_tessellate)
  have fits: "get_size header64 (result_obj panel_mesh) \<le> maxsize"
    by (simp add: result_obj_def panel_mesh_def header64_def maxsize_def)
  from first_shape_key [OF h, where how = Positional and ?rest1.0 = "[]"
         and quality = "1 / 10" and angular_tolerance = "1 / 5" and c_faces = True
         and c_edges = True and ?d1.0 = False and ?p1.0 = True and ?rest2.0 = "[panel 8]"
         and ?d2.0 = True and ?p2.0 = False and getsizeof = header64
         and ?k1.0 = working_kernel and ?c0.0 = "[]" and ?k2.0 = failing_kernel] first fits
  obtain c2 where second: "tessellate header64 failing_kernel Positional
       [((7, 1 / 10, 1 / 5, True, True), panel_mesh, 457)]
       [(panel 7)\<lparr>faces := []\<rparr>, panel 8] (1 / 10) (1 / 5) True True True False
     = ((Inr panel_mesh, []), c2)"
    by auto
  have "snd (tessellate header64 failing_kernel Positional
       [((7, 1 / 10, 1 / 5, True, True), panel_mesh, 457)]
       [(panel 7)\<lparr>faces := []\<rparr>, panel 8] (1 / 10) (1 / 5) True True True False)
     = [((7, 1 / 10, 1 / 5, True, True), panel_mesh, 457)]"
    by (simp add: run_tessellate)
  with second have "c2 = [((7, 1 / 10, 1 / 5, True, True), panel_mesh, 457)]" by simp
  with h first second show ?thesis by simp
qed

text \<open>
  Claim C7. When a call misses the cache and the kernel's meshing raises, the call
  returns that exception and the cache is what it was before the call; the next call
  with the same arguments misses again and runs the body again.
\<close>

theorem fatal_propagation:
  assumes key: "tessellate_key how shapes quality angular_tolerance c_faces c_edges debug progress = Inr key"
      and miss: "cache_getitem cache key = None"
      and fails: "BRepMesh_IncrementalMesh k (Clean_s k (compound_of k shapes)) quality False
                    angular_tolerance (number_solids (compound_of k shapes) > 1) = Inl err"
  shows "fst (fst (tessellate getsizeof k how cache shapes quality angular_tolerance
                     c_faces c_edges debug progress)) = Inl err \<and>
         snd (tessellate getsizeof k how cache shapes quality angular_tolerance
                c_faces c_edges debug progress) = cache \<and>
         fst (tessellate getsizeof k' how
                (snd (tessellate getsizeof k how cache shapes quality angular_tolerance
                        c_faces c_edges debug progress))
                shapes quality angular_tolerance c_faces c_edges debug progress) =
           tessellate_body k' shapes quality angular_tolerance c_faces c_edges debug progress"
proof -
  obtain s rest where shapes: "shapes = s # rest"
    using key by (cases shapes) (simp_all add: tessellate_key_def make_key_def split: passing.splits)
  have body: "fst (tessellate_body k shapes quality angular_tolerance c_faces c_edges debug progress) = Inl err"
    using fails unfolding shapes by (rule tessellate_body_raises)
  then obtain out where b: "tessellate_body k shapes quality angular_tolerance c_faces c_edges debug progress = (Inl err, out)"
    by (cases "tessellate_body k shapes quality angular_tolerance c_faces c_edges debug progress") simp
  have t: "tessellate getsizeof k how cache shapes quality angular_tolerance
                     c_faces c_edges debug progress = ((Inl err, out), cache)"
    using key miss b by (simp add: tessellate_def)
  show ?thesis
    using tessellate_miss [OF key miss, of getsizeof k'] by (simp add: t)
qed

theorem fatal_propagation_witness:
  "fst (fst (tessellate header64 failing_kernel Positional [] [panel 7] (1 / 10) (1 / 5)
               True True False True)) = Inl (StandardFailure ''BRepMesh'') \<and>
   snd (tessellate header64 failing_kernel Positional [] [panel 7] (1 / 10) (1 / 5)
          True True False True) = [] \<and>
   fst (tessellate header64 working_kernel Positional
          (snd (tessellate header64 failing_kernel Positional [] [panel 7] (1 / 10) (1 / 5)
                  True True False True))
          [panel 7] (1 / 10) (1 / 5) True True False True) = (Inr panel_mesh, [''t''])"
proof -
  have key: "tessellate_key Positional [panel 7] (1 / 10) (1 / 5) True True False True
             = Inr (7, 1 / 10, 1 / 5, True, True)"
    by (simp add: tessellate_key_def make_key_def panel_def)
  have miss: "cache_getitem [] (7, 1 / 10, 1 / 5, True, True) = None"
    by (simp add: cache_getitem_def)
  have fails: "BRepMesh_IncrementalMesh failing_kernel
                 (Clean_s failing_kernel (compound_of failing_kernel [panel 7])) (1 / 10) False
                 (1 / 5) (number_solids (compound_of failing_kernel [panel 7]) > 1)
               = Inl (StandardFailure ''BRepMesh'')"
    by (simp add: failing_kernel_def)
  have body: "tessellate_body working_kernel [panel 7] (1 / 10) (1 / 5) True True False True
              = (Inr panel_mesh, [''t''])"
    by (simp add: run_tessellate)
  note fp = fatal_propagation [OF key miss fails, of header64 working_kernel]
  from fp have raised: "fst (fst (tessellate header64 failing_kernel Positional [] [panel 7]
               (1 / 10) (1 / 5) True True False True)) = Inl (StandardFailure ''BRepMesh'')"
    by (rule conjunct1)
  from fp have kept: "snd (tessellate header64 failing_kernel Positional [] [panel 7] (1 / 10)
               (1 / 5) True True False True) = []"
    by blast
  from fp have again: "fst (tessellate header64 working_kernel Positional
          (snd (tessellate header64 failing_kernel Positional [] [panel 7] (1 / 10) (1 / 5)
                  True True False True))
          [panel 7] (1 / 10) (1 / 5) True True False True)
        = tessellate_body working_kernel [panel 7] (1 / 10) (1 / 5) True True False True"
    by blast
  show ?thesis
    by (intro conjI) (rule raised, rule kept, rule trans [OF again body])
qed

text \<open>
  Claim C8. Two calls that differ in \<^verbatim>\<open>debug\<close> and \<^verbatim>\<open>progress\<close> only have the
  same key; the body returns the same result for both (the same buffers or the same
  exception), and so does the cached function, which also leaves the same cache. Only
  the printed lines depend on the two flags.
\<close>

theorem flags_not_in_result:
  "make_key shapes quality angular_tolerance c_edges c_faces d1 p1 =
   make_key shapes quality angular_tolerance c_edges c_faces d2 p2 \<and>
   tessellate_key how shapes quality angular_tolerance c_faces c_edges d1 p1 =
   tessellate_key how shapes quality angular_tolerance c_faces c_edges d2 p2 \<and>
   fst (tessellate_body k shapes quality angular_tolerance c_faces c_edges d1 p1) =
   fst (tessellate_body k shapes quality angular_tolerance c_faces c_edges d2 p2) \<and>
   fst (fst (tessellate getsizeof k how cache shapes quality angular_tolerance c_faces c_edges d1 p1)) =
   fst (fst (tessellate getsizeof k how cache shapes quality angular_tolerance c_faces c_edges d2 p2)) \<and>
   snd (tessellate getsizeof k how cache shapes quality angular_tolerance c_faces c_edges d1 p1) =
   snd (tessellate getsizeof k how cache shapes quality angular_tolerance c_faces c_edges d2 p2)"
proof -
  have key: "tessellate_key how shapes quality angular_tolerance c_faces c_edges d1 p1 =
             tessellate_key how shapes quality angular_tolerance c_faces c_edges d2 p2"
    by (simp add: tessellate_key_def make_key_def split: passing.splits)
  have body: "fst (tessellate_body k shapes quality angular_tolerance c_faces c_edges d1 p1) =
              fst (tessellate_body k shapes quality angular_tolerance c_faces c_edges d2 p2)"
    using tessellate_body_flags [of k shapes quality angular_tolerance c_faces c_edges d1 p1]
          tessellate_body_flags [of k shapes quality angular_tolerance c_faces c_edges d2 p2]
    by simp
  have mk: "make_key shapes quality angular_tolerance c_edges c_faces d1 p1 =
            make_key shapes quality angular_tolerance c_edges c_faces d2 p2"
    by (simp add: make_key_def)
  show ?thesis
    using mk key body tessellate_flags [of getsizeof k how cache shapes quality angular_tolerance
                                           c_faces c_edges d1 p1 d2 p2]
    by simp
qed

theorem flags_not_in_result_witness:
  "tessellate_body working_kernel [panel 7] (1 / 10) (1 / 5) True True True True =
     (Inr panel_mesh, [''t'', ''mesh incrementally '', ''get nodes, triangles and normals'',
                      ''get edges'']) \<and>
   tessellate_body working_kernel [panel 7] (1 / 10) (1 / 5) True True False False =
     (Inr panel_mesh, [])"
  using flags_not_in_result [where how = Positional and shapes = "[panel 7]"
          and quality = "1 / 10" and angular_tolerance = "1 / 5" and c_faces = True
          and c_edges = True and ?d1.0 = True and ?p1.0 = True and ?d2.0 = False
          and ?p2.0 = False and k = working_kernel and getsizeof = header64 and cache = "[]"]
  by (simp add: run_tessellate)

end
